theory Spec2Isabelle
  imports Complex_Main "HOL-Library.Word" "HOL-Library.Monad_Syntax"
begin

section \<open>Machine model\<close>

text \<open>
  Go's \<open>uint64\<close> is a 64-bit word: \<open>+\<close>, \<open>-\<close> and \<open>*\<close> wrap modulo \<open>2 ^ 64\<close>,
  \<open>/\<close> is truncating division and panics at run time when the divisor is zero.
  Indexing a slice outside \<open>0 \<le> i < len\<close> panics as well. Both panics are values
  of the model.
\<close>

type_synonym uint64 = "64 word"

datatype panic = IndexOutOfRange | IntegerDivideByZero

definition div_u64 :: "uint64 \<Rightarrow> uint64 \<Rightarrow> panic + uint64" where
  "div_u64 a b = (if b = 0 then Inl IntegerDivideByZero else Inr (a div b))"

text \<open>The package's own helper \<open>min(a, b uint64)\<close>.\<close>

definition min_u64 :: "uint64 \<Rightarrow> uint64 \<Rightarrow> uint64" where
  "min_u64 a b = (if a < b then a else b)"

section \<open>Constants (internal/config/constants.go)\<close>

named_theorems config_defs

definition BASE_REWARD_FACTOR :: uint64 where
  [config_defs]: "BASE_REWARD_FACTOR = 64"

definition BASE_REWARDS_PER_EPOCH :: uint64 where
  [config_defs]: "BASE_REWARDS_PER_EPOCH = 4"

definition PROPOSER_REWARD_QUOTIENT :: uint64 where
  [config_defs]: "PROPOSER_REWARD_QUOTIENT = 8"

definition WHISTLEBLOWER_REWARD_QUOTIENT :: uint64 where
  [config_defs]: "WHISTLEBLOWER_REWARD_QUOTIENT = 512"

definition MIN_SLASHING_PENALTY_QUOTIENT :: uint64 where
  [config_defs]: "MIN_SLASHING_PENALTY_QUOTIENT = 128"

definition PROPORTIONAL_SLASHING_MULTIPLIER :: uint64 where
  [config_defs]: "PROPORTIONAL_SLASHING_MULTIPLIER = 1"

definition INACTIVITY_PENALTY_QUOTIENT_ALTAIR :: uint64 where
  [config_defs]: "INACTIVITY_PENALTY_QUOTIENT_ALTAIR = 50331648"

definition MIN_SLASHING_PENALTY_QUOTIENT_ALTAIR :: uint64 where
  [config_defs]: "MIN_SLASHING_PENALTY_QUOTIENT_ALTAIR = 64"

definition PROPORTIONAL_SLASHING_MULTIPLIER_ALTAIR :: uint64 where
  [config_defs]: "PROPORTIONAL_SLASHING_MULTIPLIER_ALTAIR = 2"

definition INACTIVITY_PENALTY_QUOTIENT_BELLATRIX :: uint64 where
  [config_defs]: "INACTIVITY_PENALTY_QUOTIENT_BELLATRIX = 33554432"

definition MIN_SLASHING_PENALTY_QUOTIENT_BELLATRIX :: uint64 where
  [config_defs]: "MIN_SLASHING_PENALTY_QUOTIENT_BELLATRIX = 32"

definition PROPORTIONAL_SLASHING_MULTIPLIER_BELLATRIX :: uint64 where
  [config_defs]: "PROPORTIONAL_SLASHING_MULTIPLIER_BELLATRIX = 3"

definition INACTIVITY_PENALTY_QUOTIENT :: uint64 where
  [config_defs]: "INACTIVITY_PENALTY_QUOTIENT = 67108864"

definition INACTIVITY_SCORE_BIAS :: uint64 where
  [config_defs]: "INACTIVITY_SCORE_BIAS = 4"

definition TIMELY_SOURCE_WEIGHT :: uint64 where
  [config_defs]: "TIMELY_SOURCE_WEIGHT = 14"

definition TIMELY_TARGET_WEIGHT :: uint64 where
  [config_defs]: "TIMELY_TARGET_WEIGHT = 26"

definition TIMELY_HEAD_WEIGHT :: uint64 where
  [config_defs]: "TIMELY_HEAD_WEIGHT = 14"

definition WEIGHT_DENOMINATOR :: uint64 where
  [config_defs]: "WEIGHT_DENOMINATOR = 64"

definition EFFECTIVE_BALANCE_INCREMENT :: uint64 where
  [config_defs]: "EFFECTIVE_BALANCE_INCREMENT = 1000000000"

definition MAX_EFFECTIVE_BALANCE :: uint64 where
  [config_defs]: "MAX_EFFECTIVE_BALANCE = 32000000000"

definition MIN_ATTESTATION_INCLUSION_DELAY :: uint64 where
  [config_defs]: "MIN_ATTESTATION_INCLUSION_DELAY = 1"

definition PHASE0_FORK_VERSION :: string where
  [config_defs]: "PHASE0_FORK_VERSION = ''0x00000000''"

definition ALTAIR_FORK_VERSION :: string where
  [config_defs]: "ALTAIR_FORK_VERSION = ''0x01000000''"

definition BELLATRIX_FORK_VERSION :: string where
  [config_defs]: "BELLATRIX_FORK_VERSION = ''0x02000000''"

record ForkConfig =
  Version :: string
  InactivityPenaltyQuotient :: uint64
  MinSlashingPenaltyQuotient :: uint64
  ProportionalSlashingMultiplier :: uint64

text \<open>
  \<open>GetForkConfig\<close> switches on the fork name. The cases \<open>"bellatrix"\<close> and \<open>"merge"\<close>
  return the Bellatrix record, and the default case calls \<open>GetForkConfig("bellatrix")\<close>,
  which returns that same record: the three of them are the last branch here.
\<close>

definition GetForkConfig :: "string \<Rightarrow> ForkConfig" where
  "GetForkConfig fork =
     (if fork = ''phase0'' then
        \<lparr>Version = PHASE0_FORK_VERSION,
         InactivityPenaltyQuotient = INACTIVITY_PENALTY_QUOTIENT,
         MinSlashingPenaltyQuotient = MIN_SLASHING_PENALTY_QUOTIENT,
         ProportionalSlashingMultiplier = PROPORTIONAL_SLASHING_MULTIPLIER\<rparr>
      else if fork = ''altair'' then
        \<lparr>Version = ALTAIR_FORK_VERSION,
         InactivityPenaltyQuotient = INACTIVITY_PENALTY_QUOTIENT_ALTAIR,
         MinSlashingPenaltyQuotient = MIN_SLASHING_PENALTY_QUOTIENT_ALTAIR,
         ProportionalSlashingMultiplier = PROPORTIONAL_SLASHING_MULTIPLIER_ALTAIR\<rparr>
      else
        \<lparr>Version = BELLATRIX_FORK_VERSION,
         InactivityPenaltyQuotient = INACTIVITY_PENALTY_QUOTIENT_BELLATRIX,
         MinSlashingPenaltyQuotient = MIN_SLASHING_PENALTY_QUOTIENT_BELLATRIX,
         ProportionalSlashingMultiplier = PROPORTIONAL_SLASHING_MULTIPLIER_BELLATRIX\<rparr>)"

section \<open>Data model (internal/types)\<close>

text \<open>
  The byte arrays \<open>Pubkey\<close> and \<open>WithdrawalCredentials\<close> of a validator take no part in
  any computation and are left out of the record.
\<close>

record Validator =
  EffectiveBalance :: uint64
  Slashed :: bool
  ActivationEligibilityEpoch :: uint64
  ActivationEpoch :: uint64
  ExitEpoch :: uint64
  WithdrawableEpoch :: uint64
  InactivityScore :: uint64

record NetworkState =
  Validators :: "Validator list"
  TotalActiveBalance :: uint64
  CurrentEpoch :: uint64
  FinalizedEpoch :: uint64
  JustifiedEpoch :: uint64
  CurrentFork :: string
  SlashingsPerEpoch :: "uint64 list"

text \<open>
  \<open>state.Validators[validatorIndex]\<close> with a Go \<open>int\<close> index. The functions take the
  state by pointer; the pointer is not \<open>nil\<close> here.
\<close>

definition validator_at :: "NetworkState \<Rightarrow> int \<Rightarrow> panic + Validator" where
  "validator_at state validatorIndex =
     (if 0 \<le> validatorIndex \<and> validatorIndex < int (length (Validators state))
      then Inr (Validators state ! nat validatorIndex)
      else Inl IndexOutOfRange)"

section \<open>Penalty engine (internal/calculator/penalties.go)\<close>

definition CalculateInactivityScore :: "uint64 \<Rightarrow> bool \<Rightarrow> bool \<Rightarrow> uint64" where
  "CalculateInactivityScore previousScore isActive isFinalized =
     (if isFinalized then
        (if previousScore > 0 then previousScore - min_u64 1 previousScore else 0)
      else if \<not> isActive then previousScore + INACTIVITY_SCORE_BIAS
      else previousScore + 1)"

definition GetInactivityPenalty :: "NetworkState \<Rightarrow> int \<Rightarrow> panic + uint64" where
  "GetInactivityPenalty state validatorIndex =
     (case validator_at state validatorIndex of
        Inl e \<Rightarrow> Inl e
      | Inr validator \<Rightarrow>
          if CurrentEpoch state \<le> FinalizedEpoch state + MIN_ATTESTATION_INCLUSION_DELAY
          then Inr 0
          else
            (let forkConfig = GetForkConfig (CurrentFork state);
                 penaltyNumerator = EffectiveBalance validator * InactivityScore validator;
                 penaltyDenominator = INACTIVITY_SCORE_BIAS * InactivityPenaltyQuotient forkConfig
             in div_u64 penaltyNumerator penaltyDenominator))"

record SlashingResults =
  InitialPenalty :: uint64
  ProportionalPenalty :: uint64
  TotalPenalty :: uint64
  WhistleblowerReward :: uint64
  ProposerReward :: uint64

text \<open>
  \<open>CalculateSlashingPenalties\<close>. The field \<open>PercentageOfStake\<close> is a \<open>float64\<close> ratio
  computed from \<open>TotalPenalty\<close> after all integer fields; it cannot panic and is left out.
  The only divisor that is not a positive constant is \<open>state.TotalActiveBalance\<close>.
\<close>

definition CalculateSlashingPenalties :: "NetworkState \<Rightarrow> int \<Rightarrow> uint64 \<Rightarrow> panic + SlashingResults" where
  "CalculateSlashingPenalties state validatorIndex totalSlashedBalance =
     (case validator_at state validatorIndex of
        Inl e \<Rightarrow> Inl e
      | Inr validator \<Rightarrow>
          (let forkConfig = GetForkConfig (CurrentFork state) in
           case div_u64 (EffectiveBalance validator) (MinSlashingPenaltyQuotient forkConfig) of
             Inl e \<Rightarrow> Inl e
           | Inr initialPenalty \<Rightarrow>
               (case div_u64
                       (EffectiveBalance validator *
                          min_u64 (totalSlashedBalance * ProportionalSlashingMultiplier forkConfig)
                                  (TotalActiveBalance state))
                       (TotalActiveBalance state) of
                  Inl e \<Rightarrow> Inl e
                | Inr proportionalPenalty \<Rightarrow>
                    (let totalPenalty = initialPenalty + proportionalPenalty;
                         whistleblowerReward = EffectiveBalance validator div WHISTLEBLOWER_REWARD_QUOTIENT;
                         proposerReward = whistleblowerReward div PROPOSER_REWARD_QUOTIENT
                     in Inr \<lparr>InitialPenalty = initialPenalty,
                             ProportionalPenalty = proportionalPenalty,
                             TotalPenalty = totalPenalty,
                             WhistleblowerReward = whistleblowerReward,
                             ProposerReward = proposerReward\<rparr>))))"

section \<open>Integer square root (internal/calculator/rewards.go)\<close>

text \<open>
  The mathematical function the square root is compared with: the largest \<open>r\<close> with
  \<open>r * r \<le> n\<close>, computed two bits at a time.
\<close>

fun floor_sqrt :: "nat \<Rightarrow> nat" where
  "floor_sqrt n =
     (if n = 0 then 0
      else (let r = 2 * floor_sqrt (n div 4)
            in if (r + 1) * (r + 1) \<le> n then r + 1 else r))"

declare floor_sqrt.simps [simp del]

fun bit_length :: "nat \<Rightarrow> nat" where
  "bit_length n = (if n = 0 then 0 else Suc (bit_length (n div 2)))"

declare bit_length.simps [simp del]

text \<open>
  The seed of the iteration is \<open>uint64(math.Sqrt(float64(n)))\<close>. Its three steps are
  exact functions of IEEE 754 binary64, which has a 53-bit significand:

  \<^item> \<open>float64(n)\<close> rounds \<open>n\<close> to the nearest representable number, ties to the even
    significand. Below \<open>2 ^ 53\<close> every integer is representable; above, with
    \<open>e = bit_length n - 53\<close>, the representable numbers around \<open>n\<close> are the multiples of
    \<open>2 ^ e\<close>. The result is an integer of at most \<open>2 ^ 64\<close>.

  \<^item> \<open>math.Sqrt\<close> is the square root of IEEE 754, the correctly rounded root (the
    hardware instruction, and the portable implementation of the Go library, both
    compute it). For an integer \<open>x\<close> with
    \<open>s = floor_sqrt x\<close> and \<open>2 ^ j \<le> s < 2 ^ (j + 1)\<close>, both \<open>s\<close> and \<open>s + 1\<close> are
    representable and the representable numbers between them are \<open>2 ^ (j - 52)\<close> apart.
    Hence the rounded root is \<open>s + 1\<close> when the exact root is at least
    \<open>s + 1 - 2 ^ (j - 53)\<close>, and lies in the interval from \<open>s\<close> up to, but excluding,
    \<open>s + 1\<close> otherwise. (The root of an integer is an integer or irrational, so it is
    never the midpoint itself.) With \<open>a = 2 ^ (53 - j)\<close> the test is
    \<open>(a * (s + 1) - 1)\<^sup>2 \<le> x * a\<^sup>2\<close>.

  \<^item> \<open>uint64(f)\<close> discards the fraction.
\<close>

definition float64_of_uint64 :: "uint64 \<Rightarrow> nat" where
  "float64_of_uint64 n =
     (let m = unat n in
      if m < 2 ^ 53 then m
      else (let e = bit_length m - 53; q = m div 2 ^ e; r = m mod 2 ^ e
            in if 2 ^ e < 2 * r \<or> (2 * r = 2 ^ e \<and> odd q) then (q + 1) * 2 ^ e else q * 2 ^ e))"

definition uint64_of_Sqrt :: "nat \<Rightarrow> uint64" where
  "uint64_of_Sqrt x =
     (let s = floor_sqrt x; a = 2 ^ (54 - bit_length s)
      in if (a * (s + 1) - 1) ^ 2 \<le> x * a ^ 2 then word_of_nat (s + 1) else word_of_nat s)"

text \<open>Newton's iteration, the \<open>for\<close> loop of \<open>IntegerSquareRoot\<close>; \<open>n / x\<close> panics at \<open>x = 0\<close>.\<close>

function IntegerSquareRoot_loop :: "uint64 \<Rightarrow> uint64 \<Rightarrow> panic + uint64" where
  "IntegerSquareRoot_loop n x =
     (if x = 0 then Inl IntegerDivideByZero
      else (let x1 = (x + n div x) div 2
            in if x1 \<ge> x then Inr x else IntegerSquareRoot_loop n x1))"
  by pat_completeness auto
termination
  by (relation "measure (\<lambda>(n, x). unat x)") (auto simp: word_less_nat_alt not_le)

declare IntegerSquareRoot_loop.simps [simp del]

definition IntegerSquareRoot :: "uint64 \<Rightarrow> panic + uint64" where
  "IntegerSquareRoot n =
     (if n = 0 then Inr 0
      else IntegerSquareRoot_loop n (uint64_of_Sqrt (float64_of_uint64 n)))"

section \<open>Reward engine (internal/calculator/rewards.go, current variant)\<close>

text \<open>
  The sources carry two variants of the reward engine. The one modelled here is the later
  one, whose \<open>GetBaseReward\<close> is commented as the Electra formula; the earlier variant
  divides the same quotient once more, by \<open>BASE_REWARDS_PER_EPOCH\<close>.
\<close>

definition GetBaseReward :: "NetworkState \<Rightarrow> int \<Rightarrow> panic + uint64" where
  "GetBaseReward state validatorIndex =
     (let totalBalance = TotalActiveBalance state in
      case validator_at state validatorIndex of
        Inl e \<Rightarrow> Inl e
      | Inr validator \<Rightarrow>
          (let effectiveBalance = EffectiveBalance validator in
           case IntegerSquareRoot totalBalance of
             Inl e \<Rightarrow> Inl e
           | Inr sqrtBalance \<Rightarrow> div_u64 (effectiveBalance * BASE_REWARD_FACTOR) sqrtBalance))"

definition GetBaseRewardPerIncrement :: "NetworkState \<Rightarrow> panic + uint64" where
  "GetBaseRewardPerIncrement state =
     (case IntegerSquareRoot (TotalActiveBalance state) of
        Inl e \<Rightarrow> Inl e
      | Inr sqrtBalance \<Rightarrow> div_u64 (EFFECTIVE_BALANCE_INCREMENT * BASE_REWARD_FACTOR) sqrtBalance)"

definition CalculateAttestationReward ::
    "NetworkState \<Rightarrow> int \<Rightarrow> bool \<Rightarrow> bool \<Rightarrow> bool \<Rightarrow> uint64 \<Rightarrow> panic + uint64" where
  "CalculateAttestationReward state validatorIndex correctSource correctTarget correctHead inclusionDelay =
     (case GetBaseReward state validatorIndex of
        Inl e \<Rightarrow> Inl e
      | Inr baseReward \<Rightarrow>
          (let reward0 = 0;
               reward1 = (if correctSource
                          then reward0 + baseReward * TIMELY_SOURCE_WEIGHT div WEIGHT_DENOMINATOR
                          else reward0);
               reward2 = (if correctTarget
                          then reward1 + baseReward * TIMELY_TARGET_WEIGHT div WEIGHT_DENOMINATOR
                          else reward1);
               reward = (if correctHead
                         then reward2 + baseReward * TIMELY_HEAD_WEIGHT div WEIGHT_DENOMINATOR
                         else reward2)
           in if inclusionDelay > MIN_ATTESTATION_INCLUSION_DELAY \<and> reward > 0
              then div_u64 (reward * PROPOSER_REWARD_QUOTIENT)
                           (PROPOSER_REWARD_QUOTIENT + inclusionDelay - MIN_ATTESTATION_INCLUSION_DELAY)
              else Inr reward))"

text \<open>
  \<open>CalculateRewards\<close> mixes integer and \<open>float64\<close> arithmetic. The model keeps what is
  computed on integers and what is decided by comparing the participation rate with
  constants; the \<open>float64\<close> projections (probabilities, annual totals, APY, the
  participation multiplier, the inclusion estimate) are modelled apart, in the section on
  floating-point projections below. Float
  arithmetic and float-to-integer conversion never panic in Go, so they have no part in
  whether the function returns; the integer divisions they sit between are kept, in the
  order of the source (\<open>GetBaseReward\<close>, \<open>IntegerSquareRoot\<close>, and
  \<open>GetBaseRewardPerIncrement\<close> inside \<open>CalculateAttestationInclusionReward\<close>).

  A finite \<open>float64\<close> is a rational number and \<open><\<close> on finite floats is \<open><\<close> on their
  values, so the participation rate is a \<open>rat\<close>; the decimal literals of the source
  denote the nearest \<open>float64\<close>, whose exact values are the three constants below.
\<close>

definition float64_0_3333 :: rat where
  "float64_0_3333 = 6004199023210345 / 18014398509481984"

definition float64_0_6667 :: rat where
  "float64_0_6667 = 6005099743135819 / 9007199254740992"

definition float64_0_8 :: rat where
  "float64_0_8 = 3602879701896397 / 4503599627370496"

definition inactivityLeakActive :: "rat \<Rightarrow> bool" where
  "inactivityLeakActive participationRate = (participationRate < float64_0_6667)"

definition networkHealthWarning :: "rat \<Rightarrow> string" where
  "networkHealthWarning participationRate =
     (if participationRate < float64_0_3333
      then ''CRITICAL: Network participation below 33.33% - chain cannot finalize''
      else if participationRate < float64_0_6667
      then ''WARNING: Network participation below 66.67% - inactivity leak active''
      else if participationRate < float64_0_8
      then ''CAUTION: Network participation below 80% - reduced security''
      else [])"

record RewardResults =
  ValidatorCount :: int
  TotalStaked :: uint64
  ParticipationRate :: rat
  SqrtTotalBalance :: uint64
  BaseRewardPerEpoch :: uint64
  SourceReward :: uint64
  TargetReward :: uint64
  HeadReward :: uint64
  AttestationRewardPerEpoch :: uint64
  InactivityLeakActive :: bool
  NetworkHealthWarning :: string

definition CalculateRewards :: "NetworkState \<Rightarrow> rat \<Rightarrow> panic + RewardResults" where
  "CalculateRewards state participationRate =
     (let validatorCount = int (length (Validators state)) in
      case GetBaseReward state 0 of
        Inl e \<Rightarrow> Inl e
      | Inr baseReward \<Rightarrow>
          (case IntegerSquareRoot (TotalActiveBalance state) of
             Inl e \<Rightarrow> Inl e
           | Inr sqrtTotal \<Rightarrow>
               (let sourceReward = baseReward * TIMELY_SOURCE_WEIGHT div WEIGHT_DENOMINATOR;
                    targetReward = baseReward * TIMELY_TARGET_WEIGHT div WEIGHT_DENOMINATOR;
                    headReward = baseReward * TIMELY_HEAD_WEIGHT div WEIGHT_DENOMINATOR;
                    attestationReward = sourceReward + targetReward + headReward
                in case GetBaseRewardPerIncrement state of
                     Inl e \<Rightarrow> Inl e
                   | Inr baseRewardIncrement \<Rightarrow>
                       Inr \<lparr>ValidatorCount = validatorCount,
                            TotalStaked = TotalActiveBalance state,
                            ParticipationRate = participationRate,
                            SqrtTotalBalance = sqrtTotal,
                            BaseRewardPerEpoch = baseReward,
                            SourceReward = sourceReward,
                            TargetReward = targetReward,
                            HeadReward = headReward,
                            AttestationRewardPerEpoch = attestationReward,
                            InactivityLeakActive = inactivityLeakActive participationRate,
                            NetworkHealthWarning = networkHealthWarning participationRate\<rparr>)))"

section \<open>Floating-point projections (internal/calculator/rewards.go, current variant)\<close>

text \<open>
  The remaining fields of the result of \<open>CalculateRewards\<close> are \<open>float64\<close> values. A finite
  \<open>float64\<close> is a rational number, and an arithmetic operation of IEEE 754 binary64
  returns the exact result rounded to the nearest number with a 53-bit significand, ties
  to the even significand. \<open>f64_round\<close> is this rounding: for \<open>x \<noteq> 0\<close> with
  \<open>2 ^ e \<le> \<bar>x\<bar> < 2 ^ (e + 1)\<close> the representable numbers around \<open>x\<close> are the multiples of
  \<open>2 ^ (e - 52)\<close>. The exponent \<open>e\<close> is read off the bit lengths of the numerator and the
  denominator of \<open>\<bar>x\<bar>\<close>.

  The model covers the results that are zero or normal numbers, of magnitude from
  \<open>2 ^ -1022\<close> up to, but excluding, \<open>2 ^ 1024\<close>. Where IEEE 754 returns a subnormal
  number, an infinity or a NaN (underflow, overflow, division by zero) the operation is
  \<open>None\<close> here, and so is everything computed from it; zero has no sign. Every operation
  is rounded on its own: Go may fuse \<open>x * y + z\<close> into one operation with a single
  rounding on the architectures that have the instruction (arm64, ppc64, s390x); the
  model is the evaluation without fusing, that of amd64 at its default level.
\<close>

definition f64_exponent :: "rat \<Rightarrow> int" where
  "f64_exponent x =
     (case quotient_of \<bar>x\<bar> of (a, b) \<Rightarrow>
        (let k = int (bit_length (nat a)) - int (bit_length (nat b))
         in if 2 powi k \<le> \<bar>x\<bar> then k else k - 1))"

definition round_half_even :: "rat \<Rightarrow> int" where
  "round_half_even x =
     (let f = \<lfloor>x\<rfloor>; d = x - of_int f
      in if d < 1 / 2 then f else if 1 / 2 < d then f + 1 else if even f then f else f + 1)"

definition f64_round :: "rat \<Rightarrow> rat option" where
  "f64_round x =
     (if x = 0 then Some 0
      else (let q = 2 powi (f64_exponent x - 52);
                y = of_int (round_half_even (x / q)) * q
            in if 2 powi (- 1022) \<le> \<bar>y\<bar> \<and> \<bar>y\<bar> < 2 powi 1024 then Some y else None))"








definition float64_0_6 :: rat where
  "float64_0_6 = 5404319552844595 / 9007199254740992"

definition float64_0_9 :: rat where
  "float64_0_9 = 8106479329266893 / 9007199254740992"

definition float64_2_8 :: rat where
  "float64_2_8 = 3152519739159347 / 1125899906842624"





section \<open>Public calculator (pkg/rewards/calculator.go)\<close>

text \<open>
  The field \<open>TotalActiveBalance\<close> of \<open>Calculator\<close> is written \<open>TotalActiveBalance_calc\<close>,
  the name being taken by the field of the network state.
\<close>

record Calculator =
  BaseRewardFactor :: uint64
  TotalActiveBalance_calc :: uint64

text \<open>
  Modelled from the spec: the constant \<open>MAX_EFFECTIVE_BALANCE\<close> of package \<open>rewards\<close> is
  declared in a file that is not part of the sources at hand; the spec gives the
  maximum effective balance as 32_000_000_000 minimal units, the value of the constant of
  the same name in \<open>internal/config\<close>.
\<close>

definition rewards_MAX_EFFECTIVE_BALANCE :: uint64 where
  "rewards_MAX_EFFECTIVE_BALANCE = 32000000000"

text \<open>
  Modelled from the spec: package \<open>rewards\<close> calls its own \<open>IntegerSquareRoot\<close>, whose
  file is not part of the sources at hand either. The spec describes one integer square
  root (float seed, Newton refinement until \<open>x' \<ge> x\<close>, zero guarded), which is the
  function of \<open>internal/calculator\<close> modelled above.
\<close>

definition rewards_IntegerSquareRoot :: "uint64 \<Rightarrow> panic + uint64" where
  "rewards_IntegerSquareRoot n = IntegerSquareRoot n"

definition CalculateBaseReward :: "Calculator \<Rightarrow> uint64 \<Rightarrow> panic + uint64" where
  "CalculateBaseReward c effectiveBalance =
     (let effectiveBalance' =
            (if effectiveBalance > rewards_MAX_EFFECTIVE_BALANCE
             then rewards_MAX_EFFECTIVE_BALANCE else effectiveBalance)
      in case rewards_IntegerSquareRoot (TotalActiveBalance_calc c) of
           Inl e \<Rightarrow> Inl e
         | Inr sqrtBalance \<Rightarrow> div_u64 (effectiveBalance' * BaseRewardFactor c) sqrtBalance)"

section \<open>Network states of the command line (cmd/calculator/main.go)\<close>

text \<open>
  \<open>createNetworkState\<close> builds the state every run of the tool computes on:
  \<open>validators\<close> validators at the maximum effective balance, the total balance their
  product, epochs 1000 and 998, no fork name. With the flag \<open>inactivityEpochs > 0\<close>
  each validator gets the score \<open>4 * inactivityEpochs\<close> and the finalized epoch moves
  back. Both arguments are non-negative Go \<open>int\<close>s.
\<close>

definition createNetworkState :: "nat \<Rightarrow> nat \<Rightarrow> NetworkState" where
  "createNetworkState validators inactivityEpochs =
     \<lparr>Validators = replicate validators
        \<lparr>EffectiveBalance = MAX_EFFECTIVE_BALANCE,
         Slashed = False,
         ActivationEligibilityEpoch = 0,
         ActivationEpoch = 0,
         ExitEpoch = 0,
         WithdrawableEpoch = 0,
         InactivityScore = (if inactivityEpochs > 0 then word_of_nat (inactivityEpochs * 4) else 0)\<rparr>,
      TotalActiveBalance = word_of_nat validators * MAX_EFFECTIVE_BALANCE,
      CurrentEpoch = 1000,
      FinalizedEpoch = (if inactivityEpochs > 0 \<and> validators > 0
                        then 1000 - word_of_nat inactivityEpochs - 2 else 998),
      JustifiedEpoch = 0,
      CurrentFork = [],
      SlashingsPerEpoch = []\<rparr>"

section \<open>Correctness of the integer square root\<close>

subsection \<open>Square roots of natural numbers\<close>

lemma floor_sqrt_bounds: "floor_sqrt n * floor_sqrt n \<le> n \<and> n < (floor_sqrt n + 1) * (floor_sqrt n + 1)"
proof (induction n rule: floor_sqrt.induct)
  case (1 n)
  show ?case
  proof (cases "n = 0")
    case True
    then show ?thesis by (simp add: floor_sqrt.simps)
  next
    case False
    define r' where "r' = floor_sqrt (n div 4)"
    from "1.IH"[OF False] have ih: "r' * r' \<le> n div 4" "n div 4 < (r' + 1) * (r' + 1)"
      by (simp_all add: r'_def)
    have lo: "(2 * r') * (2 * r') \<le> n"
    proof -
      have "(2 * r') * (2 * r') = 4 * (r' * r')" by simp
      also have "\<dots> \<le> 4 * (n div 4)" using ih(1) by simp
      also have "\<dots> \<le> n" by simp
      finally show ?thesis .
    qed
    have hi: "n < (2 * r' + 2) * (2 * r' + 2)"
    proof -
      have "n div 4 + 1 \<le> (r' + 1) * (r' + 1)" using ih(2) by simp
      then have "4 * (n div 4 + 1) \<le> 4 * ((r' + 1) * (r' + 1))" by simp
      moreover have "n < 4 * (n div 4 + 1)" by presburger
      moreover have "4 * ((r' + 1) * (r' + 1)) = (2 * r' + 2) * (2 * r' + 2)" by (simp add: algebra_simps)
      ultimately show ?thesis by linarith
    qed
    have unf: "floor_sqrt n = (if (2 * r' + 1) * (2 * r' + 1) \<le> n then 2 * r' + 1 else 2 * r')"
      using False by (subst floor_sqrt.simps) (simp add: r'_def Let_def)
    show ?thesis
    proof (cases "(2 * r' + 1) * (2 * r' + 1) \<le> n")
      case True
      then show ?thesis using hi by (simp add: unf)
    next
      case False
      then show ?thesis using lo by (simp add: unf)
    qed
  qed
qed

lemma sq_less_imp_less: "(a::nat) * a < b * b \<Longrightarrow> a < b"
  by (metis mult_le_mono not_le)

lemma floor_sqrt_unique: "k * k \<le> n \<Longrightarrow> n < (k + 1) * (k + 1) \<Longrightarrow> floor_sqrt n = k"
proof -
  assume a: "k * k \<le> n" "n < (k + 1) * (k + 1)"
  let ?s = "floor_sqrt n"
  from floor_sqrt_bounds[of n] have b: "?s * ?s \<le> n" "n < (?s + 1) * (?s + 1)" by simp_all
  have "k * k < (?s + 1) * (?s + 1)" using a(1) b(2) by linarith
  then have "k < ?s + 1" by (rule sq_less_imp_less)
  moreover have "?s * ?s < (k + 1) * (k + 1)" using a(2) b(1) by linarith
  then have "?s < k + 1" by (rule sq_less_imp_less)
  ultimately show ?thesis by simp
qed

lemma floor_sqrt_le_iff: "k \<le> floor_sqrt n \<longleftrightarrow> k * k \<le> n"
proof
  assume "k \<le> floor_sqrt n"
  then have "k * k \<le> floor_sqrt n * floor_sqrt n" by (simp add: mult_le_mono)
  with floor_sqrt_bounds[of n] show "k * k \<le> n" by linarith
next
  assume "k * k \<le> n"
  with floor_sqrt_bounds[of n] have "k * k < (floor_sqrt n + 1) * (floor_sqrt n + 1)" by linarith
  then have "k < floor_sqrt n + 1" by (rule sq_less_imp_less)
  then show "k \<le> floor_sqrt n" by simp
qed

lemma floor_sqrt_mono: "m \<le> n \<Longrightarrow> floor_sqrt m \<le> floor_sqrt n"
  using floor_sqrt_bounds[of m] by (simp add: floor_sqrt_le_iff)

lemma bit_length_bounds: "0 < n \<Longrightarrow> 2 ^ (bit_length n - 1) \<le> n \<and> n < 2 ^ bit_length n"
proof (induction n rule: bit_length.induct)
  case (1 n)
  then have n0: "n \<noteq> 0" by simp
  have unf: "bit_length n = Suc (bit_length (n div 2))" using n0 by (subst bit_length.simps) simp
  show ?case
  proof (cases "n div 2 = 0")
    case True
    then have "n = 1" using n0 by presburger
    then show ?thesis by (simp add: unf bit_length.simps)
  next
    case False
    then have pos: "0 < n div 2" by simp
    from "1.IH"[OF n0 pos] have ih: "2 ^ (bit_length (n div 2) - 1) \<le> n div 2" "n div 2 < 2 ^ bit_length (n div 2)" by simp_all
    have bl: "bit_length (n div 2) \<noteq> 0" using False by (subst bit_length.simps) simp
    then obtain c where c: "bit_length (n div 2) = Suc c" by (cases "bit_length (n div 2)") auto
    have "2 * 2 ^ c \<le> 2 * (n div 2)" using ih(1) c by simp
    then have lo: "2 ^ (bit_length n - 1) \<le> n" using c unf by simp
    have "n div 2 + 1 \<le> 2 ^ bit_length (n div 2)" using ih(2) by simp
    then have "2 * (n div 2 + 1) \<le> 2 ^ bit_length n" by (simp add: unf)
    then have hi: "n < 2 ^ bit_length n" by presburger
    from lo hi show ?thesis by simp
  qed
qed

subsection \<open>One step of Newton's iteration\<close>

lemma am_gm_nat: "4 * (a * b) \<le> (a + b) * (a + (b::nat))"
proof -
  have "0 \<le> (int a - int b) * (int a - int b)" by simp
  then have "4 * (int a * int b) \<le> (int a + int b) * (int a + int b)"
    by (simp add: algebra_simps)
  then have "int (4 * (a * b)) \<le> int ((a + b) * (a + b))" by simp
  then show ?thesis by (simp only: of_nat_le_iff)
qed

lemma sq_mono: "a \<le> b \<Longrightarrow> a * a \<le> b * (b::nat)"
  by (rule mult_le_mono)

lemma newton_step_lower:
  assumes "0 < x"
  shows "floor_sqrt n \<le> (x + n div x) div 2"
proof -
  define q where "q = n div x"
  define y where "y = (x + q) div 2"
  have n_lt: "n < x * (q + 1)"
    using assms unfolding q_def by (metis Suc_eq_plus1 dividend_less_times_div mult.commute add.commute mult_Suc_right)
  have "x + q + 1 \<le> 2 * (y + 1)" unfolding y_def by presburger
  then have "x + (q + 1) \<le> 2 * (y + 1)" by simp
  then have "(x + (q + 1)) * (x + (q + 1)) \<le> (2 * (y + 1)) * (2 * (y + 1))"
    by (rule sq_mono)
  moreover have "4 * (x * (q + 1)) \<le> (x + (q + 1)) * (x + (q + 1))" by (rule am_gm_nat)
  ultimately have "4 * n < 4 * ((y + 1) * (y + 1))" using n_lt by (simp add: algebra_simps)
  then have "n < (y + 1) * (y + 1)" by simp
  with floor_sqrt_bounds[of n] have "floor_sqrt n * floor_sqrt n < (y + 1) * (y + 1)" by linarith
  then have "floor_sqrt n < y + 1" by (rule sq_less_imp_less)
  then show ?thesis by (simp add: y_def q_def)
qed

lemma newton_step_decreases:
  assumes "floor_sqrt n < x"
  shows "(x + n div x) div 2 < x"
proof -
  have "floor_sqrt n + 1 \<le> x" using assms by simp
  then have "(floor_sqrt n + 1) * (floor_sqrt n + 1) \<le> x * x" by (rule sq_mono)
  with floor_sqrt_bounds[of n] have "n < x * x" by linarith
  then have "n div x < x" using assms by (simp add: less_mult_imp_div_less)
  then show ?thesis by linarith
qed

lemma newton_step_fixed:
  assumes "0 < n"
  shows "floor_sqrt n \<le> (floor_sqrt n + n div floor_sqrt n) div 2"
proof -
  let ?k = "floor_sqrt n"
  have "1 * 1 \<le> n" using assms by simp
  then have kpos: "0 < ?k" using floor_sqrt_le_iff[of 1 n] by simp
  have "?k * ?k \<le> n" using floor_sqrt_bounds by simp
  then have "?k \<le> n div ?k" using kpos by (simp add: less_eq_div_iff_mult_less_eq)
  then show ?thesis by linarith
qed

lemma div_le_plus2:
  assumes "floor_sqrt n \<le> x" "0 < x"
  shows "n div x \<le> x + 2"
proof -
  have "floor_sqrt n + 1 \<le> x + 1" using assms by simp
  then have "(floor_sqrt n + 1) * (floor_sqrt n + 1) \<le> (x + 1) * (x + 1)" by (rule sq_mono)
  with floor_sqrt_bounds[of n] have "n < (x + 1) * (x + 1)" by linarith
  then have "n < x * (x + 3)" using assms(2) by (simp add: algebra_simps)
  then have "n div x < x + 3" using assms(2) by (simp add: less_mult_imp_div_less mult.commute)
  then show ?thesis by simp
qed

subsection \<open>The loop on 64-bit words\<close>

lemma floor_sqrt_pos: "0 < n \<Longrightarrow> 0 < floor_sqrt n"
  using floor_sqrt_le_iff[of 1 n] by simp

lemma floor_sqrt_u64_bound: "n < 2 ^ 64 \<Longrightarrow> floor_sqrt n < 2 ^ 32"
proof (rule ccontr)
  assume n: "n < 2 ^ 64" and "\<not> floor_sqrt n < 2 ^ 32"
  then have "(2::nat) ^ 32 \<le> floor_sqrt n" by simp
  then have "(2::nat) ^ 32 * 2 ^ 32 \<le> n" by (simp only: floor_sqrt_le_iff)
  with n show False by simp
qed

lemma unat_add_u64: "unat a + unat b < 2 ^ 64 \<Longrightarrow> unat (a + b) = unat a + unat (b::uint64)"
  using unat_add_lem[of a b] by simp

lemma unat_mult_u64: "unat a * unat b < 2 ^ 64 \<Longrightarrow> unat (a * b) = unat a * unat (b::uint64)"
  using unat_mult_lem[of a b] by simp

lemma loop_step_unat:
  assumes "floor_sqrt (unat n) \<le> unat x" "unat x \<le> 2 ^ 32 + 1" "0 < unat x"
  shows "unat ((x + n div x) div 2) = (unat x + unat n div unat (x::uint64)) div 2"
proof -
  have "unat n div unat x \<le> unat x + 2" using assms by (intro div_le_plus2) simp_all
  then have "unat x + unat (n div x) < 2 ^ 64" using assms(2) by (simp add: unat_div)
  then have "unat (x + n div x) = unat x + unat (n div x)" by (rule unat_add_u64)
  then show ?thesis by (simp add: unat_div)
qed

lemma IntegerSquareRoot_loop_correct:
  "0 < unat n \<Longrightarrow> floor_sqrt (unat n) \<le> unat x \<Longrightarrow> unat x \<le> 2 ^ 32 + 1 \<Longrightarrow>
   IntegerSquareRoot_loop n x = Inr (word_of_nat (floor_sqrt (unat n)))"
proof (induction n x rule: IntegerSquareRoot_loop.induct)
  case (1 n x)
  let ?k = "floor_sqrt (unat n)"
  have kpos: "0 < ?k" using "1.prems"(1) by (rule floor_sqrt_pos)
  then have xpos: "0 < unat x" using "1.prems"(2) by simp
  then have x0: "x \<noteq> 0" by (auto simp: unat_eq_zero)
  define x1 where "x1 = (x + n div x) div 2"
  have ux1: "unat x1 = (unat x + unat n div unat x) div 2"
    unfolding x1_def using "1.prems"(2,3) xpos by (rule loop_step_unat)
  have unf: "IntegerSquareRoot_loop n x = (if x1 \<ge> x then Inr x else IntegerSquareRoot_loop n x1)"
    using x0 by (subst IntegerSquareRoot_loop.simps) (simp add: x1_def Let_def)
  show ?case
  proof (cases "unat x = ?k")
    case True
    have "?k \<le> (?k + unat n div ?k) div 2" using "1.prems"(1) by (rule newton_step_fixed)
    then have "x \<le> x1" by (simp add: word_le_nat_alt ux1 True)
    then have "IntegerSquareRoot_loop n x = Inr x" by (simp add: unf)
    moreover have "x = word_of_nat ?k" using True by (metis of_nat_unat ucast_id)
    ultimately show ?thesis by (simp only:)
  next
    case False
    then have gt: "?k < unat x" using "1.prems"(2) by simp
    then have "unat x1 < unat x" unfolding ux1 by (rule newton_step_decreases)
    then have nle: "\<not> x \<le> x1" by (simp add: word_le_nat_alt)
    have "?k \<le> unat x1" unfolding ux1 using xpos by (rule newton_step_lower)
    moreover have "unat x1 \<le> 2 ^ 32 + 1" using \<open>unat x1 < unat x\<close> "1.prems"(3) by simp
    ultimately have "IntegerSquareRoot_loop n x1 = Inr (word_of_nat ?k)"
      using "1.IH"[OF x0 x1_def nle "1.prems"(1)] by simp
    then show ?thesis using nle by (simp add: unf)
  qed
qed

subsection \<open>Rounding to 53 bits\<close>

lemma bit_length_le: "n < 2 ^ w \<Longrightarrow> bit_length n \<le> w"
proof (cases "n = 0")
  case True
  then show ?thesis by (simp add: bit_length.simps)
next
  case False
  assume "n < 2 ^ w"
  moreover have "2 ^ (bit_length n - 1) \<le> n" using False bit_length_bounds[of n] by simp
  ultimately have "(2::nat) ^ (bit_length n - 1) < 2 ^ w" by linarith
  then have "bit_length n - 1 < w" by simp
  then show ?thesis by simp
qed

lemma bit_length_gt: "2 ^ w \<le> n \<Longrightarrow> w < bit_length n"
proof -
  assume a: "2 ^ w \<le> n"
  then have "0 < n" by (metis less_le_trans zero_less_numeral zero_less_power)
  then have "n < 2 ^ bit_length n" using bit_length_bounds[of n] by simp
  with a have "(2::nat) ^ w < 2 ^ bit_length n" by linarith
  then show ?thesis by simp
qed

lemma float64_of_uint64_small: "unat n < 2 ^ 53 \<Longrightarrow> float64_of_uint64 n = unat n"
  by (simp add: float64_of_uint64_def)

lemma float64_of_uint64_large:
  fixes n :: uint64
  assumes big: "2 ^ 53 \<le> unat n"
  defines "e \<equiv> bit_length (unat n) - 53"
  shows "1 \<le> e \<and> unat n \<le> float64_of_uint64 n + 2 ^ (e - 1)
         \<and> 2 ^ (52 + e) \<le> float64_of_uint64 n \<and> float64_of_uint64 n \<le> 2 ^ 64"
proof -
  let ?m = "unat n"
  define q where "q = ?m div 2 ^ e"
  define r where "r = ?m mod 2 ^ e"
  have mlt: "?m < 2 ^ 64" using unsigned_less[of n] by simp
  have bl_hi: "bit_length ?m \<le> 64" using mlt by (rule bit_length_le)
  have bl_lo: "53 < bit_length ?m" using big by (rule bit_length_gt)
  have bl: "bit_length ?m = 53 + e" using bl_lo by (simp add: e_def)
  have e1: "1 \<le> e" using bl_lo by (simp add: e_def)
  have e11: "e \<le> 11" using bl_hi bl by simp
  have mpos: "0 < ?m" using big by (metis less_le_trans zero_less_numeral zero_less_power)
  have "2 ^ (bit_length ?m - 1) \<le> ?m" "?m < 2 ^ bit_length ?m"
    using bit_length_bounds[OF mpos] by simp_all
  then have m_lo: "2 ^ (52 + e) \<le> ?m" and m_hi: "?m < 2 ^ (53 + e)" by (simp_all add: bl)
  have decomp: "?m = q * 2 ^ e + r" unfolding q_def r_def by (rule div_mult_mod_eq[symmetric])
  have rlt: "r < 2 ^ e" by (simp add: r_def)
  have "2 ^ 52 * 2 ^ e \<le> ?m" using m_lo by (simp add: power_add)
  then have q_lo: "2 ^ 52 \<le> q" unfolding q_def by (simp add: less_eq_div_iff_mult_less_eq)
  have "?m < 2 ^ 53 * 2 ^ e" using m_hi by (simp add: power_add)
  then have q_hi: "q < 2 ^ 53" unfolding q_def by (simp add: less_mult_imp_div_less)
  have unf: "float64_of_uint64 n =
      (if 2 ^ e < 2 * r \<or> (2 * r = 2 ^ e \<and> odd q) then (q + 1) * 2 ^ e else q * 2 ^ e)"
    using big by (simp add: float64_of_uint64_def Let_def e_def q_def r_def not_less[symmetric])
  have pw: "(2::nat) ^ e = 2 * 2 ^ (e - 1)" using e1 by (cases e) simp_all
  have err: "?m \<le> float64_of_uint64 n + 2 ^ (e - 1)"
  proof (cases "2 ^ e < 2 * r \<or> (2 * r = 2 ^ e \<and> odd q)")
    case True
    then have "float64_of_uint64 n = q * 2 ^ e + 2 ^ e" by (simp add: unf)
    then show ?thesis using decomp rlt by linarith
  next
    case False
    then have "2 * r \<le> 2 ^ e" by simp
    then have "r \<le> 2 ^ (e - 1)" using pw by simp
    moreover from False have "float64_of_uint64 n = q * 2 ^ e" by (simp add: unf)
    ultimately show ?thesis using decomp by linarith
  qed
  have ge: "q * 2 ^ e \<le> float64_of_uint64 n" by (simp add: unf)
  have "2 ^ (52 + e) = 2 ^ 52 * (2::nat) ^ e" by (simp only: power_add)
  also have "\<dots> \<le> q * 2 ^ e" using q_lo by (rule mult_le_mono1)
  also have "\<dots> \<le> float64_of_uint64 n" by (rule ge)
  finally have lo: "2 ^ (52 + e) \<le> float64_of_uint64 n" .
  have le: "float64_of_uint64 n \<le> (q + 1) * 2 ^ e" by (simp add: unf)
  have "q + 1 \<le> 2 ^ 53" using q_hi by simp
  then have "(q + 1) * 2 ^ e \<le> 2 ^ 53 * (2::nat) ^ e" by (rule mult_le_mono1)
  also have "\<dots> = 2 ^ (53 + e)" by (simp only: power_add)
  also have "\<dots> \<le> 2 ^ 64" using e11 by (intro power_increasing) simp_all
  finally have "(q + 1) * 2 ^ e \<le> 2 ^ 64" .
  with le have hi: "float64_of_uint64 n \<le> 2 ^ 64" by (rule le_trans)
  from e1 err lo hi show ?thesis by blast
qed

lemma floor_sqrt_2_64: "floor_sqrt (2 ^ 64) = 2 ^ 32"
  by (rule floor_sqrt_unique) simp_all

lemma unat_of_nat_u64: "n < 2 ^ 64 \<Longrightarrow> unat (word_of_nat n :: uint64) = n"
  by (simp add: unat_of_nat)

lemma unat_uint64_of_Sqrt:
  assumes "x \<le> 2 ^ 64"
  shows "unat (uint64_of_Sqrt x) =
     (if (2 ^ (54 - bit_length (floor_sqrt x)) * (floor_sqrt x + 1) - 1) ^ 2
           \<le> x * (2 ^ (54 - bit_length (floor_sqrt x))) ^ 2
      then floor_sqrt x + 1 else floor_sqrt x)"
proof -
  have "floor_sqrt x \<le> floor_sqrt (2 ^ 64)" using assms by (rule floor_sqrt_mono)
  then have s: "floor_sqrt x \<le> 2 ^ 32" by (simp only: floor_sqrt_2_64)
  then have lt: "floor_sqrt x < 2 ^ 64" "floor_sqrt x + 1 < 2 ^ 64" by simp_all
  have u0: "unat (word_of_nat (floor_sqrt x) :: uint64) = floor_sqrt x"
    using lt(1) by (rule unat_of_nat_u64)
  have u1: "unat (word_of_nat (floor_sqrt x + 1) :: uint64) = floor_sqrt x + 1"
    using lt(2) by (rule unat_of_nat_u64)
  show ?thesis unfolding uint64_of_Sqrt_def Let_def using u0 u1 by (simp only: if_distrib[of unat] split: if_split)
qed

lemma round_up_condition:
  fixes a k x m E :: nat
  assumes a1: "1 \<le> a" and aE: "a * E + 2 \<le> 2 * k" and mx: "m \<le> x + E" and km: "k * k \<le> m"
  shows "(a * k - 1) ^ 2 \<le> x * a ^ 2"
proof -
  define A K X M F where "A = int a" and "K = int k" and "X = int x" and "M = int m" and "F = int E"
  have A1: "1 \<le> A" using a1 by (simp add: A_def)
  have AE: "A * F \<le> 2 * K - 2" using aE unfolding A_def F_def K_def
    by (metis (no_types, opaque_lifting) of_nat_add of_nat_le_iff of_nat_mult of_nat_numeral le_diff_eq)
  have MX: "M - F \<le> X" using mx unfolding M_def X_def F_def by linarith
  have KM: "K * K \<le> M" using km unfolding K_def M_def by (metis of_nat_le_iff of_nat_mult)
  have K1: "1 \<le> K" using AE A1 unfolding F_def by (smt (verit) mult_nonneg_nonneg of_nat_0_le_iff)
  have s1: "(M - F) * (A * A) \<le> X * (A * A)" using MX by (rule mult_right_mono) simp
  have s2: "(K * K) * (A * A) \<le> M * (A * A)" using KM by (rule mult_right_mono) simp
  have s3: "(A * F) * A \<le> (2 * K - 2) * A" using AE by (rule mult_right_mono) (use A1 in simp)
  have "(A * K - 1) * (A * K - 1) = (K * K) * (A * A) - (2 * K - 2) * A - 2 * A + 1"
    by (simp add: algebra_simps)
  also have "\<dots> \<le> M * (A * A) - (A * F) * A - 2 * A + 1" using s2 s3 by linarith
  also have "\<dots> = (M - F) * (A * A) - 2 * A + 1" by (simp add: algebra_simps)
  also have "\<dots> \<le> X * (A * A)" using s1 A1 by linarith
  finally have main: "(A * K - 1) * (A * K - 1) \<le> X * (A * A)" .
  have "1 \<le> a * k" using A1 K1 unfolding A_def K_def by (metis mult_le_mono nat_mult_1 of_nat_1 of_nat_le_iff)
  then have "int (a * k - 1) = A * K - 1" unfolding A_def K_def by (simp add: of_nat_diff)
  then have "int ((a * k - 1) ^ 2) = (A * K - 1) * (A * K - 1)" by (simp add: power2_eq_square)
  moreover have "int (x * a ^ 2) = X * (A * A)" unfolding A_def X_def by (simp add: power2_eq_square)
  ultimately have "int ((a * k - 1) ^ 2) \<le> int (x * a ^ 2)" using main by simp
  then show ?thesis by (simp only: of_nat_le_iff)
qed

subsection \<open>The seed is never below the root\<close>

lemma seed_bounds:
  fixes n :: uint64
  assumes n0: "n \<noteq> 0"
  shows "floor_sqrt (unat n) \<le> unat (uint64_of_Sqrt (float64_of_uint64 n))
       \<and> unat (uint64_of_Sqrt (float64_of_uint64 n)) \<le> 2 ^ 32 + 1"
proof -
  let ?m = "unat n"
  let ?x = "float64_of_uint64 n"
  let ?s = "floor_sqrt ?x"
  let ?k = "floor_sqrt ?m"
  let ?a = "(2::nat) ^ (54 - bit_length ?s)"
  have mlt: "?m < 2 ^ 64" using unsigned_less[of n] by simp
  have x64: "?x \<le> 2 ^ 64"
  proof (cases "?m < 2 ^ 53")
    case True
    then show ?thesis using mlt by (simp add: float64_of_uint64_small)
  next
    case False
    then show ?thesis using float64_of_uint64_large[of n] by simp
  qed
  note seed = unat_uint64_of_Sqrt[OF x64]
  have "?s \<le> floor_sqrt (2 ^ 64)" using x64 by (rule floor_sqrt_mono)
  then have s32: "?s \<le> 2 ^ 32" by (simp only: floor_sqrt_2_64)
  have upper: "unat (uint64_of_Sqrt ?x) \<le> 2 ^ 32 + 1" using s32 by (simp add: seed)
  have ge_s: "?s \<le> unat (uint64_of_Sqrt ?x)" by (simp add: seed)
  have lower: "?k \<le> unat (uint64_of_Sqrt ?x)"
  proof (cases "?k \<le> ?s")
    case True
    then show ?thesis using ge_s by (rule le_trans)
  next
    case False
    then have s_lt: "?s < ?k" by simp
    have big: "2 ^ 53 \<le> ?m"
    proof (rule ccontr)
      assume "\<not> 2 ^ 53 \<le> ?m"
      then have "?x = ?m" by (simp add: float64_of_uint64_small)
      with s_lt show False by simp
    qed
    define e where "e = bit_length ?m - 53"
    from float64_of_uint64_large[OF big, folded e_def]
    have e1: "1 \<le> e" and err: "?m \<le> ?x + 2 ^ (e - 1)" and xlo: "2 ^ (52 + e) \<le> ?x" by simp_all
    have "?s + 1 \<le> ?k" using s_lt by simp
    then have "(?s + 1) * (?s + 1) \<le> ?k * ?k" by (rule sq_mono)
    with floor_sqrt_bounds[of ?x] have x_lt: "?x < ?k * ?k" by linarith
    have km: "?k * ?k \<le> ?m" using floor_sqrt_bounds[of ?m] by simp
    have k32: "?k < 2 ^ 32" using mlt by (rule floor_sqrt_u64_bound)
    have k2: "2 \<le> ?k"
    proof (rule ccontr)
      assume "\<not> 2 \<le> ?k"
      then have "?k \<le> 1" by simp
      then have "?k * ?k \<le> 1 * 1" by (rule sq_mono)
      with x_lt have "?x \<le> 1" by simp
      moreover have "(2::nat) ^ 52 \<le> 2 ^ (52 + e)" by (intro power_increasing) simp_all
      ultimately show False using xlo by simp
    qed
    define b where "b = bit_length (?k - 1)"
    have km1: "0 < ?k - 1" using k2 by simp
    from bit_length_bounds[OF km1]
    have b_lo: "2 ^ (b - 1) \<le> ?k - 1" and b_hi: "?k - 1 < 2 ^ b" by (simp_all add: b_def)
    have "?k - 1 < 2 ^ 32" using k32 by simp
    then have b32: "b \<le> 32" unfolding b_def by (rule bit_length_le)
    have b1: "1 \<le> b"
    proof (rule ccontr)
      assume "\<not> 1 \<le> b"
      then have "b = 0" by simp
      with b_hi km1 show False by simp
    qed
    have k_le: "?k \<le> 2 ^ b" using b_hi by simp
    then have "?k * ?k \<le> 2 ^ b * 2 ^ b" by (rule sq_mono)
    then have "?k * ?k \<le> 2 ^ (b + b)" by (simp only: power_add)
    with xlo x_lt have "(2::nat) ^ (52 + e) < 2 ^ (b + b)" by linarith
    then have "52 + e < b + b" by simp
    then have exp_le: "(54 - b) + (e - 1) \<le> b" using e1 b32 by simp
    define a where "a = (2::nat) ^ (54 - b)"
    have a1: "1 \<le> a" by (simp add: a_def)
    have "a * 2 ^ (e - 1) = 2 ^ ((54 - b) + (e - 1))" by (simp only: a_def power_add)
    also have "\<dots> \<le> 2 ^ b" using exp_le by (intro power_increasing) simp_all
    also have "\<dots> = 2 * 2 ^ (b - 1)" using b1 by (cases b) simp_all
    also have "\<dots> \<le> 2 * (?k - 1)" using b_lo by simp
    finally have aE': "a * 2 ^ (e - 1) \<le> 2 * (?k - 1)" .
    then have aE: "a * 2 ^ (e - 1) + 2 \<le> 2 * ?k" using k2 by simp
    have "1 * 2 ^ (e - 1) \<le> a * 2 ^ (e - 1)" using a1 by (rule mult_le_mono1)
    then have "2 ^ (e - 1) \<le> a * 2 ^ (e - 1)" by (simp only: nat_mult_1)
    then have E_le: "2 ^ (e - 1) + 2 \<le> 2 * ?k" using aE by linarith
    have sq: "?k * ?k = (?k - 1) * (?k - 1) + 2 * ?k - 1"
    proof -
      obtain j where j: "?k = Suc j" using k2 by (cases ?k) simp_all
      show ?thesis by (simp add: j)
    qed
    have "(?k - 1) * (?k - 1) \<le> ?x" using err km E_le sq by linarith
    moreover have "?x < (?k - 1 + 1) * (?k - 1 + 1)" using x_lt k2 by simp
    ultimately have s_eq: "?s = ?k - 1" by (rule floor_sqrt_unique)
    then have s1: "?s + 1 = ?k" using k2 by simp
    have "(a * ?k - 1) ^ 2 \<le> ?x * a ^ 2" using a1 aE err km by (rule round_up_condition)
    then have "(?a * (?s + 1) - 1) ^ 2 \<le> ?x * ?a ^ 2"
      unfolding a_def b_def s1 s_eq[symmetric] .
    then have "unat (uint64_of_Sqrt ?x) = ?s + 1" by (simp add: seed)
    then show ?thesis using s1 by simp
  qed
  from lower upper show ?thesis by blast
qed

lemma IntegerSquareRoot_floor_sqrt:
  "IntegerSquareRoot n = Inr (word_of_nat (floor_sqrt (unat n)))"
proof (cases "n = 0")
  case True
  then show ?thesis by (simp add: IntegerSquareRoot_def floor_sqrt.simps)
next
  case False
  then have pos: "0 < unat n" by (simp add: unat_gt_0)
  from seed_bounds[OF False]
  have "IntegerSquareRoot_loop n (uint64_of_Sqrt (float64_of_uint64 n))
          = Inr (word_of_nat (floor_sqrt (unat n)))"
    by (intro IntegerSquareRoot_loop_correct pos) simp_all
  then show ?thesis using False by (simp add: IntegerSquareRoot_def)
qed


subsection \<open>The seed at work\<close>

text \<open>
  Two inputs on which the float seed is not the root itself. At \<open>2\<^sup>6\<^sup>4 - 1\<close> the
  conversion rounds up to \<open>2\<^sup>6\<^sup>4\<close>, the seed is \<open>2\<^sup>3\<^sup>2\<close>, one above the root, and one
  Newton step brings it down. At the square of 3253059737 the conversion rounds down,
  below the square; the exact root of the rounded number is just under 3253059737 and
  the correctly rounded one is 3253059737 again.
\<close>

lemma float64_of_uint64_max: "float64_of_uint64 18446744073709551615 = 18446744073709551616"
proof -
  have "bit_length 18446744073709551615 = 64" by (simp add: bit_length.simps)
  then show ?thesis by (simp add: float64_of_uint64_def Let_def)
qed

lemma uint64_of_Sqrt_2_64: "uint64_of_Sqrt 18446744073709551616 = 4294967296"
proof -
  have "floor_sqrt 18446744073709551616 = 4294967296" by (rule floor_sqrt_unique) simp_all
  moreover have "bit_length 4294967296 = 33" by (simp add: bit_length.simps)
  ultimately show ?thesis by (simp add: uint64_of_Sqrt_def Let_def)
qed

lemma IntegerSquareRoot_loop_max:
  "IntegerSquareRoot_loop 18446744073709551615 4294967296 = Inr 4294967295"
  by (simp add: IntegerSquareRoot_loop.simps)

lemma float64_of_uint64_rounds_down:
  "float64_of_uint64 10582397652490509169 = 10582397652490508288"
proof -
  have "bit_length 10582397652490509169 = 64" by (simp add: bit_length.simps)
  then show ?thesis by (simp add: float64_of_uint64_def Let_def)
qed

lemma uint64_of_Sqrt_rounds_up: "uint64_of_Sqrt 10582397652490508288 = 3253059737"
proof -
  have "floor_sqrt 10582397652490508288 = 3253059736" by (rule floor_sqrt_unique) simp_all
  moreover have "bit_length 3253059736 = 32" by (simp add: bit_length.simps)
  ultimately show ?thesis by (simp add: uint64_of_Sqrt_def Let_def)
qed

lemma IntegerSquareRoot_of_square:
  "IntegerSquareRoot 10582397652490509169 = Inr 3253059737"
proof -
  have "floor_sqrt 10582397652490509169 = 3253059737" by (rule floor_sqrt_unique) simp_all
  then show ?thesis by (simp add: IntegerSquareRoot_floor_sqrt)
qed

text \<open>
  Claim C2. For every 64-bit \<open>n\<close>, \<open>IntegerSquareRoot\<close> returns (it neither panics nor
  loops: the loop is a total function of the model) the number \<open>r\<close> with
  \<open>r\<^sup>2 \<le> n < (r + 1)\<^sup>2\<close>, the floor of the square root; and it returns 0 at 0.
\<close>

theorem IntegerSquareRoot_exact:
  "(\<exists>r. IntegerSquareRoot n = Inr r
        \<and> unat r * unat r \<le> unat n \<and> unat n < (unat r + 1) * (unat r + 1)
        \<and> unat r = floor_sqrt (unat n))
   \<and> IntegerSquareRoot 0 = Inr 0"
proof -
  let ?k = "floor_sqrt (unat n)"
  have "unat n < 2 ^ 64" using unsigned_less[of n] by simp
  then have "?k < 2 ^ 32" by (rule floor_sqrt_u64_bound)
  then have "?k < 2 ^ 64" by simp
  then have u: "unat (word_of_nat ?k :: uint64) = ?k" by (rule unat_of_nat_u64)
  have "IntegerSquareRoot n = Inr (word_of_nat ?k)" by (rule IntegerSquareRoot_floor_sqrt)
  moreover have "?k * ?k \<le> unat n \<and> unat n < (?k + 1) * (?k + 1)" by (rule floor_sqrt_bounds)
  moreover have "IntegerSquareRoot 0 = Inr 0" by (simp add: IntegerSquareRoot_def)
  ultimately show ?thesis using u by auto
qed

section \<open>Inactivity score recurrence\<close>

lemma CalculateInactivityScore_finalized:
  "CalculateInactivityScore p a True = (if p = 0 then 0 else p - 1)"
  by (auto simp add: CalculateInactivityScore_def min_u64_def word_gt_0 not_less le_less)

text \<open>
  Claim C7, as the code has it. One step of the inactivity score: when finalized the
  result is the previous score minus \<open>min(1, previous score)\<close>, so the score stops at 0
  and never wraps below it. When not finalized and not active it is the previous score plus
  \<open>INACTIVITY_SCORE_BIAS\<close>, and when not finalized and active the previous score plus 1,
  each provided that the sum is below \<open>2 ^ 64\<close>: the sums are \<open>uint64\<close> additions, and
  in general the result is the sum modulo \<open>2 ^ 64\<close>. Ten inactive steps without finality
  from score 0 give \<open>10 * INACTIVITY_SCORE_BIAS\<close>, and a finalized step after them gives
  one less, not 0.
\<close>

theorem CalculateInactivityScore_recurrence:
  "unat (CalculateInactivityScore prev isActive True) = unat prev - min 1 (unat prev)
   \<and> CalculateInactivityScore prev isActive True \<le> prev
   \<and> unat (CalculateInactivityScore prev False False)
        = (unat prev + unat INACTIVITY_SCORE_BIAS) mod 2 ^ 64
   \<and> unat (CalculateInactivityScore prev True False) = (unat prev + 1) mod 2 ^ 64
   \<and> (unat prev + unat INACTIVITY_SCORE_BIAS < 2 ^ 64 \<longrightarrow>
        unat (CalculateInactivityScore prev False False) = unat prev + unat INACTIVITY_SCORE_BIAS)
   \<and> (unat prev + 1 < 2 ^ 64 \<longrightarrow>
        unat (CalculateInactivityScore prev True False) = unat prev + 1)
   \<and> unat (((\<lambda>s. CalculateInactivityScore s False False) ^^ 10) 0)
        = 10 * unat INACTIVITY_SCORE_BIAS
   \<and> unat (CalculateInactivityScore
              (((\<lambda>s. CalculateInactivityScore s False False) ^^ 10) 0) isActive True)
        = 10 * unat INACTIVITY_SCORE_BIAS - 1
   \<and> CalculateInactivityScore
        (((\<lambda>s. CalculateInactivityScore s False False) ^^ 10) 0) isActive True \<noteq> 0"
proof -
  have b: "unat (CalculateInactivityScore prev isActive True) = unat prev - min 1 (unat prev)"
  proof (cases "prev = 0")
    case True
    then show ?thesis by (simp add: CalculateInactivityScore_finalized)
  next
    case False
    then have "0 < unat prev" by (simp add: unat_gt_0)
    with False show ?thesis
      by (simp add: CalculateInactivityScore_finalized unat_minus_one min_def)
  qed
  have c: "CalculateInactivityScore prev isActive True \<le> prev"
    by (cases "prev = 0")
       (simp_all add: CalculateInactivityScore_finalized word_le_nat_alt unat_minus_one)
  have d1: "unat (CalculateInactivityScore prev False False)
        = (unat prev + unat INACTIVITY_SCORE_BIAS) mod 2 ^ 64"
    by (simp add: CalculateInactivityScore_def unat_word_ariths)
  have d2: "unat (CalculateInactivityScore prev True False) = (unat prev + 1) mod 2 ^ 64"
    by (simp add: CalculateInactivityScore_def unat_word_ariths)
  have e1: "unat (CalculateInactivityScore prev False False) = unat prev + unat INACTIVITY_SCORE_BIAS"
    if "unat prev + unat INACTIVITY_SCORE_BIAS < 2 ^ 64"
    using that d1 by simp
  have e2: "unat (CalculateInactivityScore prev True False) = unat prev + 1"
    if "unat prev + 1 < 2 ^ 64"
    using that d2 by simp
  have ten: "((\<lambda>s. CalculateInactivityScore s False False) ^^ 10) 0 = 40"
    by (simp add: CalculateInactivityScore_def INACTIVITY_SCORE_BIAS_def numeral_eq_Suc)
  have f: "unat (((\<lambda>s. CalculateInactivityScore s False False) ^^ 10) 0)
        = 10 * unat INACTIVITY_SCORE_BIAS"
    by (simp only: ten) (simp add: INACTIVITY_SCORE_BIAS_def)
  have g: "unat (CalculateInactivityScore
              (((\<lambda>s. CalculateInactivityScore s False False) ^^ 10) 0) isActive True)
        = 10 * unat INACTIVITY_SCORE_BIAS - 1"
    by (simp only: ten) (simp add: CalculateInactivityScore_finalized INACTIVITY_SCORE_BIAS_def)
  have h: "CalculateInactivityScore
        (((\<lambda>s. CalculateInactivityScore s False False) ^^ 10) 0) isActive True \<noteq> 0"
    by (simp only: ten) (simp add: CalculateInactivityScore_finalized)
  from b c d1 d2 e1 e2 f g h show ?thesis by blast
qed

theorem CalculateInactivityScore_recurrence_witness:
  "unat (7 :: uint64) + unat INACTIVITY_SCORE_BIAS < 2 ^ 64
   \<and> unat (7 :: uint64) + 1 < 2 ^ 64
   \<and> unat (CalculateInactivityScore 7 False False) = 11
   \<and> unat (CalculateInactivityScore 7 True False) = 8
   \<and> unat (CalculateInactivityScore 7 False True) = 6
   \<and> unat (CalculateInactivityScore 0 False True) = 0"
  using CalculateInactivityScore_recurrence [of 7 False]
        CalculateInactivityScore_recurrence [of 7 True]
        CalculateInactivityScore_recurrence [of 0 False]
  by (simp add: INACTIVITY_SCORE_BIAS_def)

text \<open>
  Claim C7 as written states the two sums for every previous score. At the previous score
  \<open>2 ^ 64 - 1\<close> the inactive step returns 3, not the score plus
  \<open>INACTIVITY_SCORE_BIAS\<close>, and the active step returns 0, not the score plus 1.
\<close>

theorem CalculateInactivityScore_wraps_counterexample:
  "unat (18446744073709551615 :: uint64) + unat INACTIVITY_SCORE_BIAS = 18446744073709551619
   \<and> unat (CalculateInactivityScore 18446744073709551615 False False) = 3
   \<and> unat (18446744073709551615 :: uint64) + 1 = 18446744073709551616
   \<and> unat (CalculateInactivityScore 18446744073709551615 True False) = 0"
  by (simp add: CalculateInactivityScore_def INACTIVITY_SCORE_BIAS_def)

section \<open>Base reward\<close>

lemma unat_isqrt_u64:
  "unat (word_of_nat (floor_sqrt (unat (n::uint64))) :: uint64) = floor_sqrt (unat n)"
proof -
  have "unat n < 2 ^ 64" using unsigned_less[of n] by simp
  then have "floor_sqrt (unat n) < 2 ^ 32" by (rule floor_sqrt_u64_bound)
  then have "floor_sqrt (unat n) < 2 ^ 64" by simp
  then show ?thesis by (rule unat_of_nat_u64)
qed

lemma isqrt_u64_nonzero:
  "(n::uint64) \<noteq> 0 \<Longrightarrow> (word_of_nat (floor_sqrt (unat n)) :: uint64) \<noteq> 0"
proof -
  assume "n \<noteq> 0"
  then have "0 < unat n" by (simp add: unat_gt_0)
  then have "0 < floor_sqrt (unat n)" by (rule floor_sqrt_pos)
  then have "unat (word_of_nat (floor_sqrt (unat n)) :: uint64) \<noteq> 0" by (simp only: unat_isqrt_u64)
  then show ?thesis by (auto simp del: of_nat_eq_0_iff)
qed

lemma unat_div_isqrt:
  "unat (a div (word_of_nat (floor_sqrt (unat (n::uint64))) :: uint64)) = unat a div floor_sqrt (unat n)"
  by (simp add: unat_div unat_isqrt_u64)

lemma validator_at_valid:
  "0 \<le> i \<Longrightarrow> i < int (length (Validators state)) \<Longrightarrow>
   validator_at state i = Inr (Validators state ! nat i)"
  by (simp add: validator_at_def)

lemma GetBaseReward_eq:
  assumes "validator_at state i = Inr v" "TotalActiveBalance state \<noteq> 0"
  shows "GetBaseReward state i =
     Inr (EffectiveBalance v * BASE_REWARD_FACTOR
            div word_of_nat (floor_sqrt (unat (TotalActiveBalance state))))"
  using assms isqrt_u64_nonzero[OF assms(2)]
  by (simp add: GetBaseReward_def IntegerSquareRoot_floor_sqrt div_u64_def Let_def)

lemma CalculateBaseReward_eq:
  assumes "TotalActiveBalance_calc c \<noteq> 0"
  shows "CalculateBaseReward c b =
     Inr (min_u64 b rewards_MAX_EFFECTIVE_BALANCE * BaseRewardFactor c
            div word_of_nat (floor_sqrt (unat (TotalActiveBalance_calc c))))"
proof -
  have m: "(if b > rewards_MAX_EFFECTIVE_BALANCE then rewards_MAX_EFFECTIVE_BALANCE else b)
        = min_u64 b rewards_MAX_EFFECTIVE_BALANCE"
    by (auto simp add: min_u64_def)
  show ?thesis
    using isqrt_u64_nonzero[OF assms]
    by (simp add: CalculateBaseReward_def rewards_IntegerSquareRoot_def m
        IntegerSquareRoot_floor_sqrt div_u64_def Let_def del: of_nat_eq_0_iff)
qed

lemma unat_min_u64: "unat (min_u64 a b) = min (unat a) (unat b)"
  by (simp add: min_u64_def word_less_nat_alt min_def)

lemma unat_times_64:
  "unat (a * BASE_REWARD_FACTOR) = (unat a * unat BASE_REWARD_FACTOR) mod 2 ^ 64"
  by (simp add: unat_word_ariths)

lemma clamped_times_factor:
  assumes "unat rewards_MAX_EFFECTIVE_BALANCE * unat f < 2 ^ 64"
  shows "unat (min_u64 b rewards_MAX_EFFECTIVE_BALANCE * f)
       = min (unat b) (unat rewards_MAX_EFFECTIVE_BALANCE) * unat f"
proof -
  have "min (unat b) (unat rewards_MAX_EFFECTIVE_BALANCE) * unat f
          \<le> unat rewards_MAX_EFFECTIVE_BALANCE * unat f"
    by (rule mult_le_mono1) simp
  then have "unat (min_u64 b rewards_MAX_EFFECTIVE_BALANCE) * unat f < 2 ^ 64"
    using assms by (simp only: unat_min_u64)
  then have "unat (min_u64 b rewards_MAX_EFFECTIVE_BALANCE * f)
      = unat (min_u64 b rewards_MAX_EFFECTIVE_BALANCE) * unat f" by (rule unat_mult_u64)
  then show ?thesis by (simp only: unat_min_u64)
qed

text \<open>
  Claim C3, as the code has it. With a positive total active balance:

  \<^item> \<open>Calculator.CalculateBaseReward\<close> clamps the effective balance to the maximum and
    returns the clamped balance times the calculator's factor, divided by the integer
    square root of the total; with the factor \<open>BASE_REWARD_FACTOR\<close> the product cannot
    overflow and the result is the exact quotient.

  \<^item> \<open>GetBaseReward\<close>, for a valid validator index, does not clamp: it returns the
    validator's effective balance times \<open>BASE_REWARD_FACTOR\<close> (a \<open>uint64\<close> product),
    divided by the integer square root of the total. It agrees with the clamped formula
    whenever the effective balance is at most \<open>MAX_EFFECTIVE_BALANCE\<close>.

  Neither divides by \<open>BASE_REWARDS_PER_EPOCH\<close>.
\<close>

theorem base_reward_formula:
  assumes "validator_at state i = Inr v"
      and "TotalActiveBalance state \<noteq> 0"
      and "TotalActiveBalance_calc c \<noteq> 0"
  shows "(\<exists>r. CalculateBaseReward c b = Inr r
            \<and> r = min_u64 b rewards_MAX_EFFECTIVE_BALANCE * BaseRewardFactor c
                    div word_of_nat (floor_sqrt (unat (TotalActiveBalance_calc c)))
            \<and> (BaseRewardFactor c = BASE_REWARD_FACTOR \<longrightarrow>
                 unat r = min (unat b) (unat rewards_MAX_EFFECTIVE_BALANCE) * unat BASE_REWARD_FACTOR
                            div floor_sqrt (unat (TotalActiveBalance_calc c))))
       \<and> (\<exists>r. GetBaseReward state i = Inr r
            \<and> r = EffectiveBalance v * BASE_REWARD_FACTOR
                    div word_of_nat (floor_sqrt (unat (TotalActiveBalance state)))
            \<and> unat r = (unat (EffectiveBalance v) * unat BASE_REWARD_FACTOR) mod 2 ^ 64
                          div floor_sqrt (unat (TotalActiveBalance state))
            \<and> (EffectiveBalance v \<le> MAX_EFFECTIVE_BALANCE \<longrightarrow>
                 unat r = min (unat (EffectiveBalance v)) (unat MAX_EFFECTIVE_BALANCE)
                            * unat BASE_REWARD_FACTOR
                            div floor_sqrt (unat (TotalActiveBalance state))))"
proof -
  let ?rc = "min_u64 b rewards_MAX_EFFECTIVE_BALANCE * BaseRewardFactor c
               div word_of_nat (floor_sqrt (unat (TotalActiveBalance_calc c)))"
  let ?rg = "EffectiveBalance v * BASE_REWARD_FACTOR
               div word_of_nat (floor_sqrt (unat (TotalActiveBalance state)))"
  have c1: "CalculateBaseReward c b = Inr ?rc" using assms(3) by (rule CalculateBaseReward_eq)
  have c2: "unat ?rc = min (unat b) (unat rewards_MAX_EFFECTIVE_BALANCE) * unat BASE_REWARD_FACTOR
                         div floor_sqrt (unat (TotalActiveBalance_calc c))"
    if f: "BaseRewardFactor c = BASE_REWARD_FACTOR"
  proof -
    have "unat rewards_MAX_EFFECTIVE_BALANCE * unat BASE_REWARD_FACTOR < 2 ^ 64"
      by (simp add: rewards_MAX_EFFECTIVE_BALANCE_def BASE_REWARD_FACTOR_def)
    then have "unat (min_u64 b rewards_MAX_EFFECTIVE_BALANCE * BASE_REWARD_FACTOR)
        = min (unat b) (unat rewards_MAX_EFFECTIVE_BALANCE) * unat BASE_REWARD_FACTOR"
      by (rule clamped_times_factor)
    then show ?thesis by (simp only: f unat_div_isqrt)
  qed
  have g1: "GetBaseReward state i = Inr ?rg" using assms(1,2) by (rule GetBaseReward_eq)
  have g2: "unat ?rg = (unat (EffectiveBalance v) * unat BASE_REWARD_FACTOR) mod 2 ^ 64
                          div floor_sqrt (unat (TotalActiveBalance state))"
    by (simp only: unat_div_isqrt unat_times_64)
  have g3: "unat ?rg = min (unat (EffectiveBalance v)) (unat MAX_EFFECTIVE_BALANCE)
                            * unat BASE_REWARD_FACTOR
                            div floor_sqrt (unat (TotalActiveBalance state))"
    if le: "EffectiveBalance v \<le> MAX_EFFECTIVE_BALANCE"
  proof -
    have le': "unat (EffectiveBalance v) \<le> unat MAX_EFFECTIVE_BALANCE"
      using le by (simp only: word_le_nat_alt)
    then have "unat (EffectiveBalance v) * unat BASE_REWARD_FACTOR < 2 ^ 64"
      by (simp add: MAX_EFFECTIVE_BALANCE_def BASE_REWARD_FACTOR_def)
    then have "(unat (EffectiveBalance v) * unat BASE_REWARD_FACTOR) mod 2 ^ 64
        = unat (EffectiveBalance v) * unat BASE_REWARD_FACTOR" by (rule mod_less)
    moreover have "min (unat (EffectiveBalance v)) (unat MAX_EFFECTIVE_BALANCE) = unat (EffectiveBalance v)"
      using le' by (simp only: min_absorb1)
    ultimately show ?thesis by (simp only: g2)
  qed
  from c1 c2 g1 g2 g3 show ?thesis by blast
qed

lemma floor_sqrt_131072e9: "floor_sqrt 131072000000000 = 11448668"
  by (rule floor_sqrt_unique) simp_all

lemma floor_sqrt_1e18: "floor_sqrt 1000000000000000000 = 1000000000"
  by (rule floor_sqrt_unique) simp_all

lemma createNetworkState_4096:
  "validator_at (createNetworkState 4096 0) 0 = Inr
     \<lparr>EffectiveBalance = 32000000000, Slashed = False, ActivationEligibilityEpoch = 0,
      ActivationEpoch = 0, ExitEpoch = 0, WithdrawableEpoch = 0, InactivityScore = 0\<rparr>"
  "TotalActiveBalance (createNetworkState 4096 0) = 131072000000000"
  by (simp_all add: createNetworkState_def validator_at_def MAX_EFFECTIVE_BALANCE_def)

theorem base_reward_formula_witness:
  "validator_at (createNetworkState 4096 0) 0 = Inr
     \<lparr>EffectiveBalance = 32000000000, Slashed = False, ActivationEligibilityEpoch = 0,
      ActivationEpoch = 0, ExitEpoch = 0, WithdrawableEpoch = 0, InactivityScore = 0\<rparr>
   \<and> TotalActiveBalance (createNetworkState 4096 0) \<noteq> 0
   \<and> TotalActiveBalance_calc \<lparr>BaseRewardFactor = 64, TotalActiveBalance_calc = 131072000000000\<rparr> \<noteq> 0
   \<and> GetBaseReward (createNetworkState 4096 0) 0 = Inr 178885
   \<and> CalculateBaseReward \<lparr>BaseRewardFactor = 64, TotalActiveBalance_calc = 131072000000000\<rparr>
        64000000000 = Inr 178885"
proof -
  let ?c = "\<lparr>BaseRewardFactor = 64, TotalActiveBalance_calc = 131072000000000\<rparr>"
  note w = base_reward_formula [of "createNetworkState 4096 0" 0 _ ?c 64000000000,
      OF createNetworkState_4096(1)]
  have t: "TotalActiveBalance (createNetworkState 4096 0) \<noteq> 0"
    by (simp add: createNetworkState_4096)
  have tc: "TotalActiveBalance_calc ?c \<noteq> 0" by simp
  from w [OF t tc] show ?thesis
    by (simp add: createNetworkState_4096 floor_sqrt_131072e9 min_u64_def
        rewards_MAX_EFFECTIVE_BALANCE_def BASE_REWARD_FACTOR_def)
qed

text \<open>
  A validator with an effective balance of 64 ETH in a state whose total has the root
  \<open>10\<^sup>9\<close>: \<open>GetBaseReward\<close> returns 4096, the clamped formula gives 2048.
\<close>

theorem GetBaseReward_unclamped_counterexample:
  "GetBaseReward
     \<lparr>Validators = [\<lparr>EffectiveBalance = 64000000000, Slashed = False,
                      ActivationEligibilityEpoch = 0, ActivationEpoch = 0, ExitEpoch = 0,
                      WithdrawableEpoch = 0, InactivityScore = 0\<rparr>],
      TotalActiveBalance = 1000000000000000000, CurrentEpoch = 1000, FinalizedEpoch = 998,
      JustifiedEpoch = 0, CurrentFork = [], SlashingsPerEpoch = []\<rparr> 0 = Inr 4096
   \<and> IntegerSquareRoot 1000000000000000000 = Inr 1000000000
   \<and> min_u64 64000000000 MAX_EFFECTIVE_BALANCE * BASE_REWARD_FACTOR div 1000000000 = 2048"
  by (simp add: GetBaseReward_def validator_at_def IntegerSquareRoot_floor_sqrt
      floor_sqrt_1e18 div_u64_def min_u64_def MAX_EFFECTIVE_BALANCE_def BASE_REWARD_FACTOR_def)

section \<open>Monotonicity of the base reward\<close>

lemma word_div_mono_num: "(a::uint64) \<le> b \<Longrightarrow> a div c \<le> b div c"
  by (simp add: word_le_nat_alt unat_div div_le_mono)

lemma word_div_antimono_den: "(0::uint64) < c \<Longrightarrow> c \<le> d \<Longrightarrow> a div d \<le> a div c"
  by (simp add: word_le_nat_alt word_less_nat_alt unat_div div_le_mono2)

lemma isqrt_u64_mono:
  "(m::uint64) \<le> n \<Longrightarrow>
   (word_of_nat (floor_sqrt (unat m)) :: uint64) \<le> word_of_nat (floor_sqrt (unat n))"
proof -
  assume "m \<le> n"
  then have "unat m \<le> unat n" by (simp only: word_le_nat_alt)
  then have "floor_sqrt (unat m) \<le> floor_sqrt (unat n)" by (rule floor_sqrt_mono)
  then show ?thesis by (simp only: word_le_nat_alt unat_isqrt_u64)
qed

lemma isqrt_u64_pos:
  "(n::uint64) \<noteq> 0 \<Longrightarrow> (0::uint64) < word_of_nat (floor_sqrt (unat n))"
proof -
  assume "n \<noteq> 0"
  then have "(word_of_nat (floor_sqrt (unat n)) :: uint64) \<noteq> 0" by (rule isqrt_u64_nonzero)
  then show ?thesis by (simp only: word_gt_0 not_False_eq_True)
qed

lemma times_mono_no_overflow:
  assumes "(a::uint64) \<le> b" "unat b * unat f < 2 ^ 64"
  shows "a * f \<le> b * f"
proof -
  have ab: "unat a \<le> unat b" using assms(1) by (simp only: word_le_nat_alt)
  then have le: "unat a * unat f \<le> unat b * unat f" by (rule mult_le_mono1)
  then have "unat a * unat f < 2 ^ 64" using assms(2) by (rule le_less_trans)
  then have "unat (a * f) = unat a * unat f" by (rule unat_mult_u64)
  moreover have "unat (b * f) = unat b * unat f" using assms(2) by (rule unat_mult_u64)
  ultimately show ?thesis using le by (simp only: word_le_nat_alt)
qed

lemma min_u64_mono: "a \<le> b \<Longrightarrow> min_u64 a m \<le> min_u64 b m"
  by (auto simp add: min_u64_def)

lemma min_u64_le_right: "min_u64 a m \<le> m"
  by (auto simp add: min_u64_def)

text \<open>
  Claim C9, as the code has it. With positive totals, \<open>GetBaseReward\<close> does not decrease
  when the effective balance grows, provided the larger balance times
  \<open>BASE_REWARD_FACTOR\<close> fits in 64 bits, and does not increase when the total grows;
  \<open>Calculator.CalculateBaseReward\<close>, which clamps the balance, does not decrease when the
  balance grows, for every pair of balances, provided the maximum effective balance
  times the calculator's factor fits in 64 bits (as it does for \<open>BASE_REWARD_FACTOR\<close>),
  and does not increase when the total grows.
\<close>

theorem base_reward_monotone:
  assumes "validator_at s1 i1 = Inr v1" and "validator_at s2 i2 = Inr v2"
      and "TotalActiveBalance s1 \<noteq> 0" and "TotalActiveBalance s2 \<noteq> 0"
      and "TotalActiveBalance_calc c1 \<noteq> 0" and "TotalActiveBalance_calc c2 \<noteq> 0"
      and "BaseRewardFactor c1 = BaseRewardFactor c2"
  shows "(\<exists>r1 r2. GetBaseReward s1 i1 = Inr r1 \<and> GetBaseReward s2 i2 = Inr r2
            \<and> (EffectiveBalance v1 \<le> EffectiveBalance v2
                 \<and> unat (EffectiveBalance v2) * unat BASE_REWARD_FACTOR < 2 ^ 64
                 \<and> TotalActiveBalance s1 = TotalActiveBalance s2 \<longrightarrow> r1 \<le> r2)
            \<and> (EffectiveBalance v1 = EffectiveBalance v2
                 \<and> TotalActiveBalance s1 \<le> TotalActiveBalance s2 \<longrightarrow> r2 \<le> r1))
       \<and> (\<exists>q1 q2. CalculateBaseReward c1 b1 = Inr q1 \<and> CalculateBaseReward c2 b2 = Inr q2
            \<and> (b1 \<le> b2
                 \<and> unat rewards_MAX_EFFECTIVE_BALANCE * unat (BaseRewardFactor c2) < 2 ^ 64
                 \<and> TotalActiveBalance_calc c1 = TotalActiveBalance_calc c2 \<longrightarrow> q1 \<le> q2)
            \<and> (b1 = b2
                 \<and> TotalActiveBalance_calc c1 \<le> TotalActiveBalance_calc c2 \<longrightarrow> q2 \<le> q1))"
proof -
  let ?root = "\<lambda>t::uint64. (word_of_nat (floor_sqrt (unat t)) :: uint64)"
  let ?r1 = "EffectiveBalance v1 * BASE_REWARD_FACTOR div ?root (TotalActiveBalance s1)"
  let ?r2 = "EffectiveBalance v2 * BASE_REWARD_FACTOR div ?root (TotalActiveBalance s2)"
  let ?q1 = "min_u64 b1 rewards_MAX_EFFECTIVE_BALANCE * BaseRewardFactor c1
               div ?root (TotalActiveBalance_calc c1)"
  let ?q2 = "min_u64 b2 rewards_MAX_EFFECTIVE_BALANCE * BaseRewardFactor c2
               div ?root (TotalActiveBalance_calc c2)"
  have g1: "GetBaseReward s1 i1 = Inr ?r1" using assms(1,3) by (rule GetBaseReward_eq)
  have g2: "GetBaseReward s2 i2 = Inr ?r2" using assms(2,4) by (rule GetBaseReward_eq)
  have k1: "CalculateBaseReward c1 b1 = Inr ?q1" using assms(5) by (rule CalculateBaseReward_eq)
  have k2: "CalculateBaseReward c2 b2 = Inr ?q2" using assms(6) by (rule CalculateBaseReward_eq)
  have gb: "?r1 \<le> ?r2"
    if "EffectiveBalance v1 \<le> EffectiveBalance v2"
       "unat (EffectiveBalance v2) * unat BASE_REWARD_FACTOR < 2 ^ 64"
       "TotalActiveBalance s1 = TotalActiveBalance s2"
  proof -
    have "EffectiveBalance v1 * BASE_REWARD_FACTOR \<le> EffectiveBalance v2 * BASE_REWARD_FACTOR"
      using that(1,2) by (rule times_mono_no_overflow)
    then show ?thesis unfolding that(3) by (rule word_div_mono_num)
  qed
  have gt: "?r2 \<le> ?r1"
    if "EffectiveBalance v1 = EffectiveBalance v2" "TotalActiveBalance s1 \<le> TotalActiveBalance s2"
  proof -
    have "0 < ?root (TotalActiveBalance s1)" using assms(3) by (rule isqrt_u64_pos)
    moreover have "?root (TotalActiveBalance s1) \<le> ?root (TotalActiveBalance s2)"
      using that(2) by (rule isqrt_u64_mono)
    ultimately show ?thesis unfolding that(1) by (rule word_div_antimono_den)
  qed
  have kb: "?q1 \<le> ?q2"
    if "b1 \<le> b2" "unat rewards_MAX_EFFECTIVE_BALANCE * unat (BaseRewardFactor c2) < 2 ^ 64"
       "TotalActiveBalance_calc c1 = TotalActiveBalance_calc c2"
  proof -
    have m: "min_u64 b1 rewards_MAX_EFFECTIVE_BALANCE \<le> min_u64 b2 rewards_MAX_EFFECTIVE_BALANCE"
      using that(1) by (rule min_u64_mono)
    have "unat (min_u64 b2 rewards_MAX_EFFECTIVE_BALANCE) \<le> unat rewards_MAX_EFFECTIVE_BALANCE"
      using min_u64_le_right[of b2 rewards_MAX_EFFECTIVE_BALANCE] by (simp only: word_le_nat_alt)
    then have "unat (min_u64 b2 rewards_MAX_EFFECTIVE_BALANCE) * unat (BaseRewardFactor c2)
        \<le> unat rewards_MAX_EFFECTIVE_BALANCE * unat (BaseRewardFactor c2)" by (rule mult_le_mono1)
    then have "unat (min_u64 b2 rewards_MAX_EFFECTIVE_BALANCE) * unat (BaseRewardFactor c2) < 2 ^ 64"
      using that(2) by (rule le_less_trans)
    with m have "min_u64 b1 rewards_MAX_EFFECTIVE_BALANCE * BaseRewardFactor c2
        \<le> min_u64 b2 rewards_MAX_EFFECTIVE_BALANCE * BaseRewardFactor c2"
      by (rule times_mono_no_overflow)
    then show ?thesis unfolding that(3) assms(7) by (rule word_div_mono_num)
  qed
  have kt: "?q2 \<le> ?q1"
    if "b1 = b2" "TotalActiveBalance_calc c1 \<le> TotalActiveBalance_calc c2"
  proof -
    have "0 < ?root (TotalActiveBalance_calc c1)" using assms(5) by (rule isqrt_u64_pos)
    moreover have "?root (TotalActiveBalance_calc c1) \<le> ?root (TotalActiveBalance_calc c2)"
      using that(2) by (rule isqrt_u64_mono)
    ultimately show ?thesis unfolding that(1) assms(7) by (rule word_div_antimono_den)
  qed
  from g1 g2 k1 k2 gb gt kb kt show ?thesis by blast
qed

lemma floor_sqrt_524288e9: "floor_sqrt 524288000000000 = 22897336"
  by (rule floor_sqrt_unique) simp_all

lemma floor_sqrt_1: "floor_sqrt (Suc 0) = Suc 0"
  by (rule floor_sqrt_unique) simp_all

lemma createNetworkState_16384:
  "validator_at (createNetworkState 16384 0) 0 = Inr
     \<lparr>EffectiveBalance = 32000000000, Slashed = False, ActivationEligibilityEpoch = 0,
      ActivationEpoch = 0, ExitEpoch = 0, WithdrawableEpoch = 0, InactivityScore = 0\<rparr>"
  "TotalActiveBalance (createNetworkState 16384 0) = 524288000000000"
  by (simp_all add: createNetworkState_def validator_at_def MAX_EFFECTIVE_BALANCE_def)

theorem base_reward_monotone_witness:
  "GetBaseReward ((createNetworkState 4096 0)
       \<lparr>Validators := [\<lparr>EffectiveBalance = 16000000000, Slashed = False,
                         ActivationEligibilityEpoch = 0, ActivationEpoch = 0, ExitEpoch = 0,
                         WithdrawableEpoch = 0, InactivityScore = 0\<rparr>]\<rparr>) 0 = Inr 89442
   \<and> GetBaseReward (createNetworkState 4096 0) 0 = Inr 178885
   \<and> GetBaseReward (createNetworkState 16384 0) 0 = Inr 89442
   \<and> (89442 :: uint64) \<le> 178885
   \<and> CalculateBaseReward \<lparr>BaseRewardFactor = 64, TotalActiveBalance_calc = 131072000000000\<rparr>
        16000000000 = Inr 89442
   \<and> CalculateBaseReward \<lparr>BaseRewardFactor = 64, TotalActiveBalance_calc = 131072000000000\<rparr>
        64000000000 = Inr 178885
   \<and> CalculateBaseReward \<lparr>BaseRewardFactor = 64, TotalActiveBalance_calc = 524288000000000\<rparr>
        64000000000 = Inr 89442"
proof -
  let ?v16 = "\<lparr>EffectiveBalance = 16000000000, Slashed = False,
                 ActivationEligibilityEpoch = 0, ActivationEpoch = 0, ExitEpoch = 0,
                 WithdrawableEpoch = 0, InactivityScore = 0\<rparr>"
  let ?s16 = "(createNetworkState 4096 0)\<lparr>Validators := [?v16]\<rparr>"
  let ?c1 = "\<lparr>BaseRewardFactor = 64, TotalActiveBalance_calc = 131072000000000\<rparr>"
  let ?c2 = "\<lparr>BaseRewardFactor = 64, TotalActiveBalance_calc = 524288000000000\<rparr>"
  have v16: "validator_at ?s16 0 = Inr ?v16" by (simp add: validator_at_def)
  have t16: "TotalActiveBalance ?s16 \<noteq> 0" by (simp add: createNetworkState_4096)
  have t1: "TotalActiveBalance (createNetworkState 4096 0) \<noteq> 0" by (simp add: createNetworkState_4096)
  have t2: "TotalActiveBalance (createNetworkState 16384 0) \<noteq> 0" by (simp add: createNetworkState_16384)
  have tc1: "TotalActiveBalance_calc ?c1 \<noteq> 0" and tc2: "TotalActiveBalance_calc ?c2 \<noteq> 0" by simp_all
  have f11: "BaseRewardFactor ?c1 = BaseRewardFactor ?c1"
    and f12: "BaseRewardFactor ?c1 = BaseRewardFactor ?c2" by simp_all
  note in_balance = base_reward_monotone [OF v16 createNetworkState_4096(1) t16 t1 tc1 tc1 f11,
      of 16000000000 64000000000]
  note in_total = base_reward_monotone [OF createNetworkState_4096(1) createNetworkState_16384(1)
      t1 t2 tc1 tc2 f12, of 64000000000 64000000000]
  from in_balance in_total show ?thesis
    by (simp add: createNetworkState_4096 createNetworkState_16384 GetBaseReward_eq [OF v16]
        GetBaseReward_eq [OF createNetworkState_4096(1)]
        GetBaseReward_eq [OF createNetworkState_16384(1)]
        CalculateBaseReward_eq floor_sqrt_131072e9 floor_sqrt_524288e9 min_u64_def
        rewards_MAX_EFFECTIVE_BALANCE_def BASE_REWARD_FACTOR_def)
qed

text \<open>
  The balances \<open>2\<^sup>5\<^sup>8 - 1\<close> and \<open>2\<^sup>5\<^sup>8\<close> at total 1: the product of the larger one with 64
  wraps to 0, and the base reward drops from \<open>2\<^sup>6\<^sup>4 - 64\<close> to 0.
\<close>

theorem GetBaseReward_monotone_counterexample:
  "GetBaseReward
     \<lparr>Validators = [\<lparr>EffectiveBalance = 288230376151711743, Slashed = False,
                      ActivationEligibilityEpoch = 0, ActivationEpoch = 0, ExitEpoch = 0,
                      WithdrawableEpoch = 0, InactivityScore = 0\<rparr>],
      TotalActiveBalance = 1, CurrentEpoch = 1000, FinalizedEpoch = 998,
      JustifiedEpoch = 0, CurrentFork = [], SlashingsPerEpoch = []\<rparr> 0
     = Inr 18446744073709551552
   \<and> GetBaseReward
     \<lparr>Validators = [\<lparr>EffectiveBalance = 288230376151711744, Slashed = False,
                      ActivationEligibilityEpoch = 0, ActivationEpoch = 0, ExitEpoch = 0,
                      WithdrawableEpoch = 0, InactivityScore = 0\<rparr>],
      TotalActiveBalance = 1, CurrentEpoch = 1000, FinalizedEpoch = 998,
      JustifiedEpoch = 0, CurrentFork = [], SlashingsPerEpoch = []\<rparr> 0
     = Inr 0
   \<and> (288230376151711743 :: uint64) \<le> 288230376151711744
   \<and> \<not> (18446744073709551552 :: uint64) \<le> 0"
  by (simp add: GetBaseReward_def validator_at_def IntegerSquareRoot_floor_sqrt
      floor_sqrt_1 div_u64_def BASE_REWARD_FACTOR_def)

section \<open>Late attestations\<close>

text \<open>The reward of an attestation included without delay: the sum of its components.\<close>

lemma CalculateAttestationReward_unfold:
  assumes "validator_at state i = Inr v" "TotalActiveBalance state \<noteq> 0"
  shows "\<exists>R. CalculateAttestationReward state i cs ct ch MIN_ATTESTATION_INCLUSION_DELAY = Inr R
           \<and> (\<forall>d. CalculateAttestationReward state i cs ct ch d =
                 (if d > MIN_ATTESTATION_INCLUSION_DELAY \<and> R > 0
                  then div_u64 (R * PROPOSER_REWARD_QUOTIENT)
                         (PROPOSER_REWARD_QUOTIENT + d - MIN_ATTESTATION_INCLUSION_DELAY)
                  else Inr R))"
  using GetBaseReward_eq[OF assms]
  by (simp add: CalculateAttestationReward_def Let_def)

lemma delay_divisor:
  assumes "unat (d::uint64) + 7 < 2 ^ 64"
  shows "unat (PROPOSER_REWARD_QUOTIENT + d - MIN_ATTESTATION_INCLUSION_DELAY) = unat d + 7"
proof -
  have eq: "PROPOSER_REWARD_QUOTIENT + d - MIN_ATTESTATION_INCLUSION_DELAY = d + 7"
    by (simp add: PROPOSER_REWARD_QUOTIENT_def MIN_ATTESTATION_INCLUSION_DELAY_def)
  have "unat d + unat (7::uint64) < 2 ^ 64" using assms by simp
  then have "unat (d + 7) = unat d + unat (7::uint64)" by (rule unat_add_u64)
  then have "unat (d + 7) = unat d + 7" by simp
  then show ?thesis by (simp only: eq)
qed

lemma late_reward_le:
  assumes "2 \<le> (k::nat)"
  shows "(r * 8) mod 2 ^ 64 div (k + 7) \<le> r"
proof (cases "r * 8 < 2 ^ 64")
  case True
  then have "(r * 8) mod 2 ^ 64 div (k + 7) = r * 8 div (k + 7)" by simp
  also have "\<dots> \<le> r * 8 div 9" using assms by (intro div_le_mono2) simp_all
  also have "\<dots> \<le> r" by simp
  finally show ?thesis .
next
  case False
  have "(r * 8) mod 2 ^ 64 div (k + 7) \<le> (r * 8) mod 2 ^ 64 div 9"
    using assms by (intro div_le_mono2) simp_all
  also have "\<dots> \<le> 2 ^ 64 div 9"
    by (intro div_le_mono) (simp add: less_imp_le)
  also have "\<dots> \<le> r" using False by simp
  finally show ?thesis .
qed

lemma unat_late_reward:
  assumes "unat (d::uint64) + 7 < 2 ^ 64"
  shows "unat (R * PROPOSER_REWARD_QUOTIENT
               div (PROPOSER_REWARD_QUOTIENT + d - MIN_ATTESTATION_INCLUSION_DELAY))
       = (unat R * 8) mod 2 ^ 64 div (unat d + 7)"
proof -
  have "unat (R * PROPOSER_REWARD_QUOTIENT) = (unat R * 8) mod 2 ^ 64"
    by (simp add: unat_word_ariths PROPOSER_REWARD_QUOTIENT_def)
  then show ?thesis by (simp only: unat_div delay_divisor[OF assms])
qed

text \<open>
  Claim C10, as the code has it. For a valid validator index and a positive total, let
  \<open>R\<close> be the reward at the minimal inclusion delay. For every delay \<open>d\<close> above the
  minimum with \<open>d + 7 < 2\<^sup>6\<^sup>4\<close> (so that the divisor
  \<open>PROPOSER_REWARD_QUOTIENT + d - MIN_ATTESTATION_INCLUSION_DELAY\<close> does not wrap), the
  function returns \<open>R * PROPOSER_REWARD_QUOTIENT\<close> divided by that divisor, which is
  at most \<open>R\<close>, and is the exact quotient when \<open>R * 8\<close> fits in 64 bits; and over all
  delays up to that bound the returned reward does not increase as the delay grows.
\<close>

theorem CalculateAttestationReward_delay:
  assumes "validator_at state i = Inr v" and "TotalActiveBalance state \<noteq> 0"
  shows "\<exists>R. CalculateAttestationReward state i cs ct ch MIN_ATTESTATION_INCLUSION_DELAY = Inr R
     \<and> (\<forall>d. MIN_ATTESTATION_INCLUSION_DELAY < d \<and> unat d + 7 < 2 ^ 64 \<longrightarrow>
           CalculateAttestationReward state i cs ct ch d
             = Inr (R * PROPOSER_REWARD_QUOTIENT
                      div (PROPOSER_REWARD_QUOTIENT + d - MIN_ATTESTATION_INCLUSION_DELAY))
           \<and> R * PROPOSER_REWARD_QUOTIENT
                 div (PROPOSER_REWARD_QUOTIENT + d - MIN_ATTESTATION_INCLUSION_DELAY) \<le> R
           \<and> (unat R * unat PROPOSER_REWARD_QUOTIENT < 2 ^ 64 \<longrightarrow>
                unat (R * PROPOSER_REWARD_QUOTIENT
                        div (PROPOSER_REWARD_QUOTIENT + d - MIN_ATTESTATION_INCLUSION_DELAY))
                  = unat R * unat PROPOSER_REWARD_QUOTIENT
                      div (unat PROPOSER_REWARD_QUOTIENT + unat d
                             - unat MIN_ATTESTATION_INCLUSION_DELAY)))
     \<and> (\<forall>d1 d2. d1 \<le> d2 \<and> unat d2 + 7 < 2 ^ 64 \<longrightarrow>
           (\<exists>r1 r2. CalculateAttestationReward state i cs ct ch d1 = Inr r1
                  \<and> CalculateAttestationReward state i cs ct ch d2 = Inr r2
                  \<and> r2 \<le> r1))"
proof -
  from CalculateAttestationReward_unfold[OF assms, of cs ct ch]
  obtain R where R0: "CalculateAttestationReward state i cs ct ch MIN_ATTESTATION_INCLUSION_DELAY = Inr R"
    and Rd: "\<And>d. CalculateAttestationReward state i cs ct ch d =
                 (if d > MIN_ATTESTATION_INCLUSION_DELAY \<and> R > 0
                  then div_u64 (R * PROPOSER_REWARD_QUOTIENT)
                         (PROPOSER_REWARD_QUOTIENT + d - MIN_ATTESTATION_INCLUSION_DELAY)
                  else Inr R)"
    by blast
  define late where "late d = R * PROPOSER_REWARD_QUOTIENT
      div (PROPOSER_REWARD_QUOTIENT + d - MIN_ATTESTATION_INCLUSION_DELAY)" for d
  have min1: "unat MIN_ATTESTATION_INCLUSION_DELAY = 1"
    by (simp add: MIN_ATTESTATION_INCLUSION_DELAY_def)
  have value_late: "CalculateAttestationReward state i cs ct ch d = Inr (late d)"
    if "MIN_ATTESTATION_INCLUSION_DELAY < d" "unat d + 7 < 2 ^ 64" for d
  proof (cases "R > 0")
    case True
    have "unat (PROPOSER_REWARD_QUOTIENT + d - MIN_ATTESTATION_INCLUSION_DELAY) \<noteq> 0"
      by (simp add: delay_divisor[OF that(2)])
    then have "PROPOSER_REWARD_QUOTIENT + d - MIN_ATTESTATION_INCLUSION_DELAY \<noteq> 0"
      by (simp only: unat_eq_zero not_False_eq_True)
    then show ?thesis using True that(1) by (simp add: Rd div_u64_def late_def)
  next
    case False
    then have "R = 0" by (simp add: word_gt_0)
    then show ?thesis by (simp add: Rd late_def)
  qed
  have value_on_time: "CalculateAttestationReward state i cs ct ch d = Inr R"
    if "\<not> MIN_ATTESTATION_INCLUSION_DELAY < d" for d
    using that by (simp add: Rd)
  have late_le: "late d \<le> R"
    if "MIN_ATTESTATION_INCLUSION_DELAY < d" "unat d + 7 < 2 ^ 64" for d
  proof -
    have "2 \<le> unat d" using that(1) by (simp add: word_less_nat_alt min1)
    then have "(unat R * 8) mod 2 ^ 64 div (unat d + 7) \<le> unat R" by (rule late_reward_le)
    then show ?thesis unfolding late_def
      by (simp only: word_le_nat_alt unat_late_reward[OF that(2)])
  qed
  have late_exact: "unat (late d) = unat R * unat PROPOSER_REWARD_QUOTIENT
        div (unat PROPOSER_REWARD_QUOTIENT + unat d - unat MIN_ATTESTATION_INCLUSION_DELAY)"
    if "unat d + 7 < 2 ^ 64" "unat R * unat PROPOSER_REWARD_QUOTIENT < 2 ^ 64" for d
  proof -
    have q8: "unat PROPOSER_REWARD_QUOTIENT = 8" by (simp add: PROPOSER_REWARD_QUOTIENT_def)
    have "unat R * 8 < 2 ^ 64" using that(2) by (simp only: q8)
    then have "(unat R * 8) mod 2 ^ 64 = unat R * 8" by (rule mod_less)
    then have "unat (late d) = unat R * 8 div (unat d + 7)"
      unfolding late_def by (simp only: unat_late_reward[OF that(1)])
    moreover have "unat PROPOSER_REWARD_QUOTIENT + unat d - unat MIN_ATTESTATION_INCLUSION_DELAY
        = unat d + 7" by (simp add: q8 min1)
    ultimately show ?thesis by (simp only: q8)
  qed
  have late_mono: "late d2 \<le> late d1"
    if "d1 \<le> d2" "unat d2 + 7 < 2 ^ 64" for d1 d2
  proof -
    have le: "unat d1 \<le> unat d2" using that(1) by (simp only: word_le_nat_alt)
    then have r1: "unat d1 + 7 < 2 ^ 64" using that(2) by simp
    have "(unat R * 8) mod 2 ^ 64 div (unat d2 + 7) \<le> (unat R * 8) mod 2 ^ 64 div (unat d1 + 7)"
      using le by (intro div_le_mono2) simp_all
    then show ?thesis unfolding late_def
      by (simp only: word_le_nat_alt unat_late_reward[OF that(2)] unat_late_reward[OF r1])
  qed
  have mono: "\<exists>r1 r2. CalculateAttestationReward state i cs ct ch d1 = Inr r1
                  \<and> CalculateAttestationReward state i cs ct ch d2 = Inr r2 \<and> r2 \<le> r1"
    if "d1 \<le> d2" "unat d2 + 7 < 2 ^ 64" for d1 d2
  proof -
    have le: "unat d1 \<le> unat d2" using that(1) by (simp only: word_le_nat_alt)
    then have r1: "unat d1 + 7 < 2 ^ 64" using that(2) by simp
    show ?thesis
    proof (cases "MIN_ATTESTATION_INCLUSION_DELAY < d1")
      case True
      then have d2: "MIN_ATTESTATION_INCLUSION_DELAY < d2" using that(1) by simp
      show ?thesis
        using value_late[OF True r1] value_late[OF d2 that(2)] late_mono[OF that] by blast
    next
      case False
      note d1 = value_on_time[OF False]
      show ?thesis
      proof (cases "MIN_ATTESTATION_INCLUSION_DELAY < d2")
        case True
        show ?thesis using d1 value_late[OF True that(2)] late_le[OF True that(2)] by blast
      next
        case False
        show ?thesis using d1 value_on_time[OF False] by simp
      qed
    qed
  qed
  show ?thesis
    using R0 value_late late_le late_exact mono unfolding late_def by blast
qed

lemma CalculateAttestationReward_4096:
  "CalculateAttestationReward (createNetworkState 4096 0) 0 True True True d =
     (if d > 1 then div_u64 1207472 (7 + d) else Inr 150934)"
  by (simp add: CalculateAttestationReward_def GetBaseReward_eq [OF createNetworkState_4096(1)]
      createNetworkState_4096 floor_sqrt_131072e9 config_defs Let_def)

theorem CalculateAttestationReward_delay_witness:
  "validator_at (createNetworkState 4096 0) 0 = Inr
     \<lparr>EffectiveBalance = 32000000000, Slashed = False, ActivationEligibilityEpoch = 0,
      ActivationEpoch = 0, ExitEpoch = 0, WithdrawableEpoch = 0, InactivityScore = 0\<rparr>
   \<and> TotalActiveBalance (createNetworkState 4096 0) \<noteq> 0
   \<and> MIN_ATTESTATION_INCLUSION_DELAY < 2 \<and> (2 :: uint64) \<le> 5 \<and> unat (5 :: uint64) + 7 < 2 ^ 64
   \<and> CalculateAttestationReward (createNetworkState 4096 0) 0 True True True
         MIN_ATTESTATION_INCLUSION_DELAY = Inr 150934
   \<and> CalculateAttestationReward (createNetworkState 4096 0) 0 True True True 2 = Inr 134163
   \<and> CalculateAttestationReward (createNetworkState 4096 0) 0 True True True 5 = Inr 100622
   \<and> (100622 :: uint64) \<le> 134163 \<and> (134163 :: uint64) \<le> 150934"
proof -
  have t: "TotalActiveBalance (createNetworkState 4096 0) \<noteq> 0"
    by (simp add: createNetworkState_4096)
  from CalculateAttestationReward_delay [OF createNetworkState_4096(1) t, of True True True]
  show ?thesis
    by (simp add: CalculateAttestationReward_4096 createNetworkState_4096 div_u64_def
        MIN_ATTESTATION_INCLUSION_DELAY_def)
qed

text \<open>
  At the delay \<open>2\<^sup>6\<^sup>4 - 1\<close> the divisor wraps to 6 and the reward exceeds the one at the
  minimal delay; at \<open>2\<^sup>6\<^sup>4 - 7\<close> it wraps to 0 and the division panics.
\<close>

theorem CalculateAttestationReward_delay_counterexample:
  "CalculateAttestationReward (createNetworkState 4096 0) 0 True True True
       MIN_ATTESTATION_INCLUSION_DELAY = Inr 150934
   \<and> CalculateAttestationReward (createNetworkState 4096 0) 0 True True True
       18446744073709551615 = Inr 201245
   \<and> \<not> (201245 :: uint64) \<le> 150934
   \<and> CalculateAttestationReward (createNetworkState 4096 0) 0 True True True
       18446744073709551609 = Inl IntegerDivideByZero"
  by (simp add: CalculateAttestationReward_4096 div_u64_def MIN_ATTESTATION_INCLUSION_DELAY_def)

section \<open>Inactivity leak\<close>

lemma GetInactivityPenalty_eq:
  assumes "validator_at state i = Inr v"
  shows "GetInactivityPenalty state i =
     Inr (if CurrentEpoch state \<le> FinalizedEpoch state + MIN_ATTESTATION_INCLUSION_DELAY then 0
          else EffectiveBalance v * InactivityScore v
                 div (INACTIVITY_SCORE_BIAS
                        * InactivityPenaltyQuotient (GetForkConfig (CurrentFork state))))"
  using assms
  by (simp add: GetInactivityPenalty_def div_u64_def Let_def GetForkConfig_def config_defs)

lemma unat_penalty_denominator:
  "unat (INACTIVITY_SCORE_BIAS * InactivityPenaltyQuotient (GetForkConfig fork))
     = unat INACTIVITY_SCORE_BIAS * unat (InactivityPenaltyQuotient (GetForkConfig fork))"
  by (simp add: GetForkConfig_def config_defs)

text \<open>
  Claim C8, as the code has it. For a valid validator index, \<open>GetInactivityPenalty\<close>
  returns 0 when the current epoch is at most the finalized epoch plus the minimal
  inclusion delay, provided that this sum is below \<open>2 ^ 64\<close>; and when the current epoch
  is greater than the sum it returns the effective balance times the inactivity score,
  divided by \<open>INACTIVITY_SCORE_BIAS\<close> times the inactivity penalty quotient of the state's
  fork, provided that the product is below \<open>2 ^ 64\<close>. In general the sum and the product
  are those of \<open>uint64\<close>, taken modulo \<open>2 ^ 64\<close> before the comparison and the division.
  The quotient is that of phase0, of altair, or else of bellatrix: \<open>"merge"\<close> and every
  unknown fork name resolve to the bellatrix configuration, the default.
\<close>

theorem GetInactivityPenalty_formula:
  assumes "validator_at state i = Inr v"
  shows "\<exists>r. GetInactivityPenalty state i = Inr r
          \<and> unat r =
              (if unat (CurrentEpoch state)
                    \<le> (unat (FinalizedEpoch state) + unat MIN_ATTESTATION_INCLUSION_DELAY) mod 2 ^ 64
               then 0
               else (unat (EffectiveBalance v) * unat (InactivityScore v)) mod 2 ^ 64
                      div (unat INACTIVITY_SCORE_BIAS
                             * unat (InactivityPenaltyQuotient (GetForkConfig (CurrentFork state)))))
          \<and> (unat (CurrentEpoch state)
                  \<le> unat (FinalizedEpoch state) + unat MIN_ATTESTATION_INCLUSION_DELAY
               \<and> unat (FinalizedEpoch state) + unat MIN_ATTESTATION_INCLUSION_DELAY < 2 ^ 64
               \<longrightarrow> r = 0)
          \<and> (unat (FinalizedEpoch state) + unat MIN_ATTESTATION_INCLUSION_DELAY
                  < unat (CurrentEpoch state)
               \<and> unat (EffectiveBalance v) * unat (InactivityScore v) < 2 ^ 64
               \<longrightarrow> unat r = unat (EffectiveBalance v) * unat (InactivityScore v)
                              div (unat INACTIVITY_SCORE_BIAS
                                     * unat (InactivityPenaltyQuotient
                                               (GetForkConfig (CurrentFork state)))))
          \<and> InactivityPenaltyQuotient (GetForkConfig (CurrentFork state))
              = (if CurrentFork state = ''phase0'' then INACTIVITY_PENALTY_QUOTIENT
                 else if CurrentFork state = ''altair'' then INACTIVITY_PENALTY_QUOTIENT_ALTAIR
                 else INACTIVITY_PENALTY_QUOTIENT_BELLATRIX)
          \<and> GetForkConfig ''merge'' = GetForkConfig ''bellatrix''
          \<and> (CurrentFork state \<noteq> ''phase0'' \<and> CurrentFork state \<noteq> ''altair'' \<longrightarrow>
               GetForkConfig (CurrentFork state) = GetForkConfig ''bellatrix'')"
proof -
  let ?q = "InactivityPenaltyQuotient (GetForkConfig (CurrentFork state))"
  let ?w = "CurrentEpoch state \<le> FinalizedEpoch state + MIN_ATTESTATION_INCLUSION_DELAY"
  let ?r = "if ?w then 0
            else EffectiveBalance v * InactivityScore v div (INACTIVITY_SCORE_BIAS * ?q)"
  let ?n = "(unat (EffectiveBalance v) * unat (InactivityScore v)) mod 2 ^ 64
              div (unat INACTIVITY_SCORE_BIAS * unat ?q)"
  have a: "GetInactivityPenalty state i = Inr ?r" using assms by (rule GetInactivityPenalty_eq)
  have w: "?w = (unat (CurrentEpoch state)
                  \<le> (unat (FinalizedEpoch state) + unat MIN_ATTESTATION_INCLUSION_DELAY) mod 2 ^ 64)"
    by (simp add: word_le_nat_alt unat_word_ariths)
  have q: "unat (EffectiveBalance v * InactivityScore v div (INACTIVITY_SCORE_BIAS * ?q)) = ?n"
  proof -
    have "unat (EffectiveBalance v * InactivityScore v div (INACTIVITY_SCORE_BIAS * ?q))
        = unat (EffectiveBalance v * InactivityScore v) div unat (INACTIVITY_SCORE_BIAS * ?q)"
      by (rule unat_div)
    moreover have "unat (EffectiveBalance v * InactivityScore v)
        = (unat (EffectiveBalance v) * unat (InactivityScore v)) mod 2 ^ 64"
      by (simp add: unat_word_ariths)
    ultimately show ?thesis by (simp only: unat_penalty_denominator)
  qed
  have b: "unat ?r =
      (if unat (CurrentEpoch state)
            \<le> (unat (FinalizedEpoch state) + unat MIN_ATTESTATION_INCLUSION_DELAY) mod 2 ^ 64
       then 0 else ?n)"
    using w q by simp
  have c: "?r = 0"
    if "unat (CurrentEpoch state)
          \<le> unat (FinalizedEpoch state) + unat MIN_ATTESTATION_INCLUSION_DELAY
        \<and> unat (FinalizedEpoch state) + unat MIN_ATTESTATION_INCLUSION_DELAY < 2 ^ 64"
    using that w by simp
  have d: "unat ?r = unat (EffectiveBalance v) * unat (InactivityScore v)
                       div (unat INACTIVITY_SCORE_BIAS * unat ?q)"
    if late: "unat (FinalizedEpoch state) + unat MIN_ATTESTATION_INCLUSION_DELAY
                < unat (CurrentEpoch state)
              \<and> unat (EffectiveBalance v) * unat (InactivityScore v) < 2 ^ 64"
  proof -
    have "unat (CurrentEpoch state) < 2 ^ 64" using unsigned_less [of "CurrentEpoch state"] by simp
    with late have "unat (FinalizedEpoch state) + unat MIN_ATTESTATION_INCLUSION_DELAY < 2 ^ 64"
      by linarith
    with late have "\<not> ?w" using w by simp
    with late q show ?thesis by simp
  qed
  have e: "?q = (if CurrentFork state = ''phase0'' then INACTIVITY_PENALTY_QUOTIENT
               else if CurrentFork state = ''altair'' then INACTIVITY_PENALTY_QUOTIENT_ALTAIR
               else INACTIVITY_PENALTY_QUOTIENT_BELLATRIX)"
    by (simp add: GetForkConfig_def)
  have f: "GetForkConfig ''merge'' = GetForkConfig ''bellatrix''"
    by (simp add: GetForkConfig_def)
  have g: "GetForkConfig (CurrentFork state) = GetForkConfig ''bellatrix''"
    if "CurrentFork state \<noteq> ''phase0'' \<and> CurrentFork state \<noteq> ''altair''"
    using that by (simp add: GetForkConfig_def)
  from a b c d e f g show ?thesis by blast
qed

lemma createNetworkState_100_inactive:
  "validator_at (createNetworkState 4096 100) 0 = Inr
     \<lparr>EffectiveBalance = 32000000000, Slashed = False, ActivationEligibilityEpoch = 0,
      ActivationEpoch = 0, ExitEpoch = 0, WithdrawableEpoch = 0, InactivityScore = 400\<rparr>"
  "CurrentEpoch (createNetworkState 4096 100) = 1000"
  "FinalizedEpoch (createNetworkState 4096 100) = 898"
  "CurrentFork (createNetworkState 4096 100) = []"
  by (simp_all add: createNetworkState_def validator_at_def MAX_EFFECTIVE_BALANCE_def)

theorem GetInactivityPenalty_formula_witness:
  "validator_at (createNetworkState 4096 100) 0 = Inr
     \<lparr>EffectiveBalance = 32000000000, Slashed = False, ActivationEligibilityEpoch = 0,
      ActivationEpoch = 0, ExitEpoch = 0, WithdrawableEpoch = 0, InactivityScore = 400\<rparr>
   \<and> unat (FinalizedEpoch (createNetworkState 4096 100)) + unat MIN_ATTESTATION_INCLUSION_DELAY
        < unat (CurrentEpoch (createNetworkState 4096 100))
   \<and> unat (32000000000 :: uint64) * unat (400 :: uint64) < 2 ^ 64
   \<and> unat (CurrentEpoch ((createNetworkState 4096 100)\<lparr>FinalizedEpoch := 999\<rparr>))
        \<le> unat (FinalizedEpoch ((createNetworkState 4096 100)\<lparr>FinalizedEpoch := 999\<rparr>))
             + unat MIN_ATTESTATION_INCLUSION_DELAY
   \<and> unat (FinalizedEpoch ((createNetworkState 4096 100)\<lparr>FinalizedEpoch := 999\<rparr>))
         + unat MIN_ATTESTATION_INCLUSION_DELAY < 2 ^ 64
   \<and> CurrentFork (createNetworkState 4096 100) \<noteq> ''phase0''
   \<and> CurrentFork (createNetworkState 4096 100) \<noteq> ''altair''
   \<and> GetInactivityPenalty (createNetworkState 4096 100) 0 = Inr 95367
   \<and> GetInactivityPenalty ((createNetworkState 4096 100)\<lparr>CurrentFork := ''phase0''\<rparr>) 0 = Inr 47683
   \<and> GetInactivityPenalty ((createNetworkState 4096 100)\<lparr>CurrentFork := ''altair''\<rparr>) 0 = Inr 63578
   \<and> GetInactivityPenalty ((createNetworkState 4096 100)\<lparr>FinalizedEpoch := 999\<rparr>) 0 = Inr 0"
proof -
  have p: "validator_at ((createNetworkState 4096 100)\<lparr>CurrentFork := ''phase0''\<rparr>) 0 = Inr
     \<lparr>EffectiveBalance = 32000000000, Slashed = False, ActivationEligibilityEpoch = 0,
      ActivationEpoch = 0, ExitEpoch = 0, WithdrawableEpoch = 0, InactivityScore = 400\<rparr>"
    by (simp add: createNetworkState_def validator_at_def MAX_EFFECTIVE_BALANCE_def)
  have a: "validator_at ((createNetworkState 4096 100)\<lparr>CurrentFork := ''altair''\<rparr>) 0 = Inr
     \<lparr>EffectiveBalance = 32000000000, Slashed = False, ActivationEligibilityEpoch = 0,
      ActivationEpoch = 0, ExitEpoch = 0, WithdrawableEpoch = 0, InactivityScore = 400\<rparr>"
    by (simp add: createNetworkState_def validator_at_def MAX_EFFECTIVE_BALANCE_def)
  have z: "validator_at ((createNetworkState 4096 100)\<lparr>FinalizedEpoch := 999\<rparr>) 0 = Inr
     \<lparr>EffectiveBalance = 32000000000, Slashed = False, ActivationEligibilityEpoch = 0,
      ActivationEpoch = 0, ExitEpoch = 0, WithdrawableEpoch = 0, InactivityScore = 400\<rparr>"
    by (simp add: createNetworkState_def validator_at_def MAX_EFFECTIVE_BALANCE_def)
  have u: "unat r = 95367 \<longleftrightarrow> r = 95367"
          "unat r = 47683 \<longleftrightarrow> r = 47683"
          "unat r = 63578 \<longleftrightarrow> r = 63578" for r :: uint64
    using word_unat_eq_iff [of r 95367] word_unat_eq_iff [of r 47683]
          word_unat_eq_iff [of r 63578] by simp_all
  from GetInactivityPenalty_formula [OF createNetworkState_100_inactive(1)]
       GetInactivityPenalty_formula [OF p] GetInactivityPenalty_formula [OF a]
       GetInactivityPenalty_formula [OF z]
  show ?thesis
    by (auto simp add: createNetworkState_100_inactive GetForkConfig_def config_defs u)
qed

text \<open>
  Claim C8 as written is stated for every state. The state the command line builds for 999
  epochs of inactivity has the finalized epoch \<open>2 ^ 64 - 1\<close> and the current epoch 1000:
  the current epoch is not greater than the finalized epoch plus the delay, and the penalty
  is 952720, not 0. With the inactivity score \<open>2 ^ 40\<close> at 32 ETH, outside the window,
  the penalty is 47915728896, while the claimed quotient is 262144000000000.
\<close>

theorem GetInactivityPenalty_wraps_counterexample:
  "unat (CurrentEpoch (createNetworkState 4096 999)) = 1000
   \<and> unat (FinalizedEpoch (createNetworkState 4096 999)) = 18446744073709551615
   \<and> GetInactivityPenalty (createNetworkState 4096 999) 0 = Inr 952720
   \<and> GetInactivityPenalty
        ((createNetworkState 1 100)
           \<lparr>Validators :=
              [\<lparr>EffectiveBalance = 32000000000, Slashed = False, ActivationEligibilityEpoch = 0,
                ActivationEpoch = 0, ExitEpoch = 0, WithdrawableEpoch = 0,
                InactivityScore = 1099511627776\<rparr>]\<rparr>) 0 = Inr 47915728896
   \<and> unat (32000000000 :: uint64) * unat (1099511627776 :: uint64)
        div (unat INACTIVITY_SCORE_BIAS * unat INACTIVITY_PENALTY_QUOTIENT_BELLATRIX)
        = 262144000000000"
  by (simp add: GetInactivityPenalty_def createNetworkState_def validator_at_def div_u64_def
        GetForkConfig_def config_defs Let_def unsigned_minus_1_eq_mask mask_eq_exp_minus_1)

section \<open>Slashing penalties\<close>

lemma createNetworkState_4096_fork:
  "CurrentFork (createNetworkState 4096 0) = []"
  by (simp add: createNetworkState_def)

text \<open>
  Claim C6, where the code departs from it. For the state of the command line with 4096
  validators (total \<open>131072 * 10\<^sup>9\<close>, default fork, multiplier 3) and validator 0:

  \<^item> with a total slashed balance of 32 ETH the formula of the claim gives the
    proportional penalty 23437500, and the function returns 75076;

  \<^item> with everything slashed the clamp is active and the formula gives the effective
    balance, 32000000000, and the function returns 95060.

  In both cases the product of the effective balance with the clamped slashed balance
  exceeds \<open>2\<^sup>6\<^sup>4\<close> and wraps before it is divided. The initial penalty and the
  whistleblower and proposer rewards are as the claim says.
\<close>

theorem CalculateSlashingPenalties_overflow:
  "CalculateSlashingPenalties (createNetworkState 4096 0) 0 32000000000
     = Inr \<lparr>InitialPenalty = 1000000000, ProportionalPenalty = 75076,
            TotalPenalty = 1000075076, WhistleblowerReward = 62500000,
            ProposerReward = 7812500\<rparr>
   \<and> (32000000000 * min (32000000000 * 3) 131072000000000 div 131072000000000 :: nat)
       = 23437500
   \<and> CalculateSlashingPenalties (createNetworkState 4096 0) 0 131072000000000
     = Inr \<lparr>InitialPenalty = 1000000000, ProportionalPenalty = 95060,
            TotalPenalty = 1000095060, WhistleblowerReward = 62500000,
            ProposerReward = 7812500\<rparr>
   \<and> (32000000000 * min (131072000000000 * 3) 131072000000000 div 131072000000000 :: nat)
       = 32000000000
   \<and> TotalActiveBalance (createNetworkState 4096 0) = 131072000000000
   \<and> ProportionalSlashingMultiplier (GetForkConfig (CurrentFork (createNetworkState 4096 0))) = 3
   \<and> unat (32000000000 * 131072000000000 :: uint64)
       = (32000000000 * 131072000000000) mod 2 ^ 64"
  by (simp add: CalculateSlashingPenalties_def createNetworkState_4096 createNetworkState_4096_fork
      div_u64_def min_u64_def GetForkConfig_def config_defs Let_def)

text \<open>
  Where the two products of the proportional penalty fit in 64 bits, it is the exact
  quotient of the slashing formula.
\<close>

lemma CalculateSlashingPenalties_exact_if_fits:
  assumes v: "validator_at state i = Inr v"
      and t: "TotalActiveBalance state \<noteq> 0"
      and f1: "unat ts * unat (ProportionalSlashingMultiplier (GetForkConfig (CurrentFork state))) < 2 ^ 64"
      and f2: "unat (EffectiveBalance v)
                 * min (unat ts * unat (ProportionalSlashingMultiplier (GetForkConfig (CurrentFork state))))
                       (unat (TotalActiveBalance state)) < 2 ^ 64"
  shows "\<exists>r. CalculateSlashingPenalties state i ts = Inr r
           \<and> unat (ProportionalPenalty r)
               = unat (EffectiveBalance v)
                   * min (unat ts * unat (ProportionalSlashingMultiplier (GetForkConfig (CurrentFork state))))
                         (unat (TotalActiveBalance state))
                   div unat (TotalActiveBalance state)"
proof -
  let ?m = "ProportionalSlashingMultiplier (GetForkConfig (CurrentFork state))"
  let ?q = "MinSlashingPenaltyQuotient (GetForkConfig (CurrentFork state))"
  have q: "?q \<noteq> 0" by (simp add: GetForkConfig_def config_defs)
  have "unat (ts * ?m) = unat ts * unat ?m" using f1 by (rule unat_mult_u64)
  then have mn: "unat (min_u64 (ts * ?m) (TotalActiveBalance state))
      = min (unat ts * unat ?m) (unat (TotalActiveBalance state))"
    by (simp only: unat_min_u64)
  then have "unat (EffectiveBalance v) * unat (min_u64 (ts * ?m) (TotalActiveBalance state)) < 2 ^ 64"
    using f2 by (simp only:)
  then have "unat (EffectiveBalance v * min_u64 (ts * ?m) (TotalActiveBalance state))
      = unat (EffectiveBalance v) * unat (min_u64 (ts * ?m) (TotalActiveBalance state))"
    by (rule unat_mult_u64)
  then have "unat (EffectiveBalance v * min_u64 (ts * ?m) (TotalActiveBalance state)
                    div TotalActiveBalance state)
      = unat (EffectiveBalance v) * min (unat ts * unat ?m) (unat (TotalActiveBalance state))
          div unat (TotalActiveBalance state)"
    by (simp only: unat_div mn)
  then show ?thesis using v t q
    by (simp add: CalculateSlashingPenalties_def div_u64_def Let_def)
qed

section \<open>Argument checks of the reward computation\<close>

lemma GetBaseRewardPerIncrement_eq:
  assumes "TotalActiveBalance state \<noteq> 0"
  shows "GetBaseRewardPerIncrement state =
     Inr (EFFECTIVE_BALANCE_INCREMENT * BASE_REWARD_FACTOR
            div word_of_nat (floor_sqrt (unat (TotalActiveBalance state))))"
  using isqrt_u64_nonzero[OF assms]
  by (simp add: GetBaseRewardPerIncrement_def IntegerSquareRoot_floor_sqrt div_u64_def)

lemma CalculateRewards_eq:
  assumes "validator_at state 0 = Inr v" "TotalActiveBalance state \<noteq> 0"
  shows "CalculateRewards state p =
     (let baseReward = EffectiveBalance v * BASE_REWARD_FACTOR
                         div word_of_nat (floor_sqrt (unat (TotalActiveBalance state)));
          sourceReward = baseReward * TIMELY_SOURCE_WEIGHT div WEIGHT_DENOMINATOR;
          targetReward = baseReward * TIMELY_TARGET_WEIGHT div WEIGHT_DENOMINATOR;
          headReward = baseReward * TIMELY_HEAD_WEIGHT div WEIGHT_DENOMINATOR
      in Inr \<lparr>ValidatorCount = int (length (Validators state)),
              TotalStaked = TotalActiveBalance state,
              ParticipationRate = p,
              SqrtTotalBalance = word_of_nat (floor_sqrt (unat (TotalActiveBalance state))),
              BaseRewardPerEpoch = baseReward,
              SourceReward = sourceReward,
              TargetReward = targetReward,
              HeadReward = headReward,
              AttestationRewardPerEpoch = sourceReward + targetReward + headReward,
              InactivityLeakActive = inactivityLeakActive p,
              NetworkHealthWarning = networkHealthWarning p\<rparr>)"
  by (simp add: CalculateRewards_def GetBaseReward_eq[OF assms]
      GetBaseRewardPerIncrement_eq[OF assms(2)] IntegerSquareRoot_floor_sqrt Let_def)

lemma validator_at_0_nonempty:
  "Validators state \<noteq> [] \<Longrightarrow> validator_at state 0 = Inr (Validators state ! 0)"
  by (simp add: validator_at_def)

text \<open>
  Claim C1, as the code has it. \<open>CalculateRewards\<close> checks neither argument and has no
  error result. For every participation rate, inside the interval from 0 to 1 or not:
  with at least one validator and a positive total active balance it returns a result,
  which records the rate as given; with at least one validator and a total of 0 it
  stops with the run-time panic of the integer division by zero in its first
  computation, \<open>GetBaseReward\<close>; with no validator it stops with the index panic.
\<close>

theorem CalculateRewards_no_validation:
  "(Validators state \<noteq> [] \<and> TotalActiveBalance state \<noteq> 0 \<longrightarrow>
      (\<exists>r. CalculateRewards state p = Inr r
           \<and> ParticipationRate r = p \<and> TotalStaked r = TotalActiveBalance state
           \<and> GetBaseReward state 0 = Inr (BaseRewardPerEpoch r)))
   \<and> (Validators state \<noteq> [] \<and> TotalActiveBalance state = 0 \<longrightarrow>
        CalculateRewards state p = Inl IntegerDivideByZero
        \<and> GetBaseReward state 0 = Inl IntegerDivideByZero)
   \<and> (Validators state = [] \<longrightarrow> CalculateRewards state p = Inl IndexOutOfRange)"
proof -
  have a: "\<exists>r. CalculateRewards state p = Inr r
           \<and> ParticipationRate r = p \<and> TotalStaked r = TotalActiveBalance state
           \<and> GetBaseReward state 0 = Inr (BaseRewardPerEpoch r)"
    if "Validators state \<noteq> []" "TotalActiveBalance state \<noteq> 0"
  proof -
    note v = validator_at_0_nonempty[OF that(1)]
    show ?thesis
      by (simp add: CalculateRewards_eq[OF v that(2)] GetBaseReward_eq[OF v that(2)] Let_def)
  qed
  have b: "CalculateRewards state p = Inl IntegerDivideByZero
        \<and> GetBaseReward state 0 = Inl IntegerDivideByZero"
    if "Validators state \<noteq> []" "TotalActiveBalance state = 0"
    using that
    by (simp add: CalculateRewards_def GetBaseReward_def validator_at_def
        IntegerSquareRoot_def div_u64_def Let_def)
  have c: "CalculateRewards state p = Inl IndexOutOfRange" if "Validators state = []"
    using that by (simp add: CalculateRewards_def GetBaseReward_def validator_at_def Let_def)
  from a b c show ?thesis by blast
qed

lemma CalculateRewards_4096:
  "CalculateRewards (createNetworkState 4096 0) p =
     Inr \<lparr>ValidatorCount = 4096, TotalStaked = 131072000000000, ParticipationRate = p,
          SqrtTotalBalance = 11448668, BaseRewardPerEpoch = 178885, SourceReward = 39131,
          TargetReward = 72672, HeadReward = 39131, AttestationRewardPerEpoch = 150934,
          InactivityLeakActive = inactivityLeakActive p,
          NetworkHealthWarning = networkHealthWarning p\<rparr>"
proof -
  have t: "TotalActiveBalance (createNetworkState 4096 0) \<noteq> 0"
    by (simp add: createNetworkState_4096)
  have l: "length (Validators (createNetworkState 4096 0)) = 4096"
    by (simp add: createNetworkState_def)
  show ?thesis
    by (simp add: CalculateRewards_eq[OF createNetworkState_4096(1) t] createNetworkState_4096
        l floor_sqrt_131072e9 config_defs Let_def)
qed

theorem CalculateRewards_no_validation_witness:
  "Validators (createNetworkState 4096 0) \<noteq> []
   \<and> TotalActiveBalance (createNetworkState 4096 0) \<noteq> 0
   \<and> (\<exists>r. CalculateRewards (createNetworkState 4096 0) (19 / 20) = Inr r
          \<and> ParticipationRate r = 19 / 20 \<and> BaseRewardPerEpoch r = 178885)
   \<and> Validators ((createNetworkState 4096 0)\<lparr>TotalActiveBalance := 0\<rparr>) \<noteq> []
   \<and> TotalActiveBalance ((createNetworkState 4096 0)\<lparr>TotalActiveBalance := 0\<rparr>) = 0
   \<and> CalculateRewards ((createNetworkState 4096 0)\<lparr>TotalActiveBalance := 0\<rparr>) (19 / 20)
       = Inl IntegerDivideByZero
   \<and> Validators (createNetworkState 0 0) = []
   \<and> CalculateRewards (createNetworkState 0 0) (19 / 20) = Inl IndexOutOfRange"
proof -
  have n: "Validators (createNetworkState 4096 0) \<noteq> []"
       "Validators ((createNetworkState 4096 0)\<lparr>TotalActiveBalance := 0\<rparr>) \<noteq> []"
       "Validators (createNetworkState 0 0) = []"
    by (simp_all add: createNetworkState_def)
  from CalculateRewards_no_validation [of "createNetworkState 4096 0" "19 / 20"]
       CalculateRewards_no_validation [of "(createNetworkState 4096 0)\<lparr>TotalActiveBalance := 0\<rparr>" "19 / 20"]
       CalculateRewards_no_validation [of "createNetworkState 0 0" "19 / 20"]
  show ?thesis
    by (simp add: n createNetworkState_4096 CalculateRewards_4096)
qed

text \<open>
  The participation rates 2 and 0 on the state with 4096 validators: both calls return a
  result. With the total set to 0 the call ends in the division panic.
\<close>

theorem CalculateRewards_validation_counterexample:
  "CalculateRewards (createNetworkState 4096 0) 2 =
     Inr \<lparr>ValidatorCount = 4096, TotalStaked = 131072000000000, ParticipationRate = 2,
          SqrtTotalBalance = 11448668, BaseRewardPerEpoch = 178885, SourceReward = 39131,
          TargetReward = 72672, HeadReward = 39131, AttestationRewardPerEpoch = 150934,
          InactivityLeakActive = False, NetworkHealthWarning = []\<rparr>
   \<and> \<not> (2 :: rat) \<le> 1
   \<and> CalculateRewards (createNetworkState 4096 0) 0 =
     Inr \<lparr>ValidatorCount = 4096, TotalStaked = 131072000000000, ParticipationRate = 0,
          SqrtTotalBalance = 11448668, BaseRewardPerEpoch = 178885, SourceReward = 39131,
          TargetReward = 72672, HeadReward = 39131, AttestationRewardPerEpoch = 150934,
          InactivityLeakActive = True,
          NetworkHealthWarning =
            ''CRITICAL: Network participation below 33.33% - chain cannot finalize''\<rparr>
   \<and> \<not> (0 :: rat) < 0
   \<and> CalculateRewards ((createNetworkState 4096 0)\<lparr>TotalActiveBalance := 0\<rparr>) (19 / 20)
       = Inl IntegerDivideByZero"
proof -
  have z: "CalculateRewards ((createNetworkState 4096 0)\<lparr>TotalActiveBalance := 0\<rparr>) (19 / 20)
       = Inl IntegerDivideByZero"
    by (simp add: CalculateRewards_def GetBaseReward_def validator_at_def createNetworkState_def
        IntegerSquareRoot_def div_u64_def Let_def)
  show ?thesis
    by (simp add: CalculateRewards_4096 z inactivityLeakActive_def networkHealthWarning_def
        float64_0_3333_def float64_0_6667_def float64_0_8_def)
qed

section \<open>Network health bands\<close>

lemma float64_constants_nearest:
  "\<bar>float64_0_3333 - 3333 / 10000\<bar> \<le> 1 / 2 ^ 55"
  "\<bar>float64_0_6667 - 6667 / 10000\<bar> \<le> 1 / 2 ^ 54"
  "\<bar>float64_0_8 - 8 / 10\<bar> \<le> 1 / 2 ^ 54"
  "float64_0_3333 = 6004199023210345 / 2 ^ 54"
  "float64_0_6667 = 6005099743135819 / 2 ^ 53"
  "float64_0_8 = 7205759403792794 / 2 ^ 53"
  by (simp_all add: float64_0_3333_def float64_0_6667_def float64_0_8_def)

lemma CalculateRewards_health:
  assumes "CalculateRewards state p = Inr r"
  shows "NetworkHealthWarning r = networkHealthWarning p"
    and "InactivityLeakActive r = inactivityLeakActive p"
  using assms
  by (auto simp add: CalculateRewards_def Let_def split: sum.splits)

text \<open>
  Claim C5, as the code has it. For a state with at least one validator and a positive
  total active balance, \<open>CalculateRewards\<close> returns a result whose warning follows the
  bands cut at the \<open>float64\<close> constants \<open>0.3333\<close>, \<open>0.6667\<close> and \<open>0.8\<close>: critical
  below the first, inactivity leak from the first up to the second, reduced security
  from the second up to the third, and no warning from the third on; the leak flag is
  set below the second. The first constant is below \<open>1/3\<close> and the second above
  \<open>2/3\<close>, so both \<open>1/3\<close> and \<open>2/3\<close> fall in the inactivity-leak band.
\<close>

theorem NetworkHealthWarning_bands:
  assumes "Validators state \<noteq> []" and "TotalActiveBalance state \<noteq> 0"
  shows "\<exists>r. CalculateRewards state p = Inr r
       \<and> (p < float64_0_3333 \<longrightarrow> NetworkHealthWarning r =
            ''CRITICAL: Network participation below 33.33% - chain cannot finalize'')
       \<and> (float64_0_3333 \<le> p \<and> p < float64_0_6667 \<longrightarrow> NetworkHealthWarning r =
            ''WARNING: Network participation below 66.67% - inactivity leak active'')
       \<and> (float64_0_6667 \<le> p \<and> p < float64_0_8 \<longrightarrow> NetworkHealthWarning r =
            ''CAUTION: Network participation below 80% - reduced security'')
       \<and> (float64_0_8 \<le> p \<longrightarrow> NetworkHealthWarning r = [])
       \<and> InactivityLeakActive r = (p < float64_0_6667)
       \<and> \<bar>float64_0_3333 - 3333 / 10000\<bar> \<le> 1 / 2 ^ 55
       \<and> \<bar>float64_0_6667 - 6667 / 10000\<bar> \<le> 1 / 2 ^ 54
       \<and> \<bar>float64_0_8 - 8 / 10\<bar> \<le> 1 / 2 ^ 54
       \<and> float64_0_3333 < 1 / 3 \<and> 1 / 3 < float64_0_6667
       \<and> float64_0_3333 < 2 / 3 \<and> 2 / 3 < float64_0_6667"
proof -
  have c: "float64_0_3333 < float64_0_6667" "float64_0_6667 < float64_0_8"
    by (simp_all add: float64_0_3333_def float64_0_6667_def float64_0_8_def)
  obtain r where r: "CalculateRewards state p = Inr r"
    using CalculateRewards_eq [OF validator_at_0_nonempty [OF assms(1)] assms(2), of p]
    by (simp add: Let_def)
  have w: "NetworkHealthWarning r = networkHealthWarning p"
    and l: "InactivityLeakActive r = inactivityLeakActive p"
    using r by (rule CalculateRewards_health)+
  have b1: "NetworkHealthWarning r =
      ''CRITICAL: Network participation below 33.33% - chain cannot finalize''"
    if "p < float64_0_3333"
    using that by (simp add: w networkHealthWarning_def)
  have b2: "NetworkHealthWarning r =
      ''WARNING: Network participation below 66.67% - inactivity leak active''"
    if "float64_0_3333 \<le> p \<and> p < float64_0_6667"
    using that by (simp add: w networkHealthWarning_def not_less[symmetric])
  have b3: "NetworkHealthWarning r =
      ''CAUTION: Network participation below 80% - reduced security''"
    if "float64_0_6667 \<le> p \<and> p < float64_0_8"
  proof -
    from that c have "\<not> p < float64_0_3333" "\<not> p < float64_0_6667" "p < float64_0_8" by simp_all
    then show ?thesis by (simp add: w networkHealthWarning_def)
  qed
  have b4: "NetworkHealthWarning r = []" if "float64_0_8 \<le> p"
  proof -
    from that c have "\<not> p < float64_0_3333" "\<not> p < float64_0_6667" "\<not> p < float64_0_8" by simp_all
    then show ?thesis by (simp add: w networkHealthWarning_def)
  qed
  have b5: "InactivityLeakActive r = (p < float64_0_6667)"
    by (simp add: l inactivityLeakActive_def)
  have k: "float64_0_3333 < 1 / 3 \<and> 1 / 3 < float64_0_6667
       \<and> float64_0_3333 < 2 / 3 \<and> 2 / 3 < float64_0_6667"
    by (simp add: float64_0_3333_def float64_0_6667_def)
  from r b1 b2 b3 b4 b5 k float64_constants_nearest(1,2,3) show ?thesis by blast
qed

theorem NetworkHealthWarning_bands_witness:
  "Validators (createNetworkState 4096 0) \<noteq> []
   \<and> TotalActiveBalance (createNetworkState 4096 0) \<noteq> 0
   \<and> map_sum id NetworkHealthWarning (CalculateRewards (createNetworkState 4096 0) (1 / 4))
     = Inr ''CRITICAL: Network participation below 33.33% - chain cannot finalize''
   \<and> (1 / 4 :: rat) < float64_0_3333
   \<and> map_sum id NetworkHealthWarning (CalculateRewards (createNetworkState 4096 0) (1 / 3))
     = Inr ''WARNING: Network participation below 66.67% - inactivity leak active''
   \<and> float64_0_3333 \<le> 1 / 3 \<and> 1 / 3 < float64_0_6667
   \<and> map_sum id NetworkHealthWarning (CalculateRewards (createNetworkState 4096 0) (2 / 3))
     = Inr ''WARNING: Network participation below 66.67% - inactivity leak active''
   \<and> float64_0_3333 \<le> 2 / 3 \<and> 2 / 3 < float64_0_6667
   \<and> map_sum id NetworkHealthWarning (CalculateRewards (createNetworkState 4096 0) (3 / 4))
     = Inr ''CAUTION: Network participation below 80% - reduced security''
   \<and> float64_0_6667 \<le> 3 / 4 \<and> 3 / 4 < float64_0_8
   \<and> map_sum id NetworkHealthWarning (CalculateRewards (createNetworkState 4096 0) (7 / 8))
     = Inr []
   \<and> float64_0_8 \<le> 7 / 8"
proof -
  let ?s = "createNetworkState 4096 0"
  have n: "Validators ?s \<noteq> []" by (simp add: createNetworkState_def)
  have t: "TotalActiveBalance ?s \<noteq> 0" by (simp add: createNetworkState_4096)
  have c: "(1 / 4 :: rat) < float64_0_3333"
      "float64_0_3333 \<le> 1 / 3" "1 / 3 < float64_0_6667"
      "float64_0_3333 \<le> 2 / 3" "2 / 3 < float64_0_6667"
      "float64_0_6667 \<le> 3 / 4" "3 / 4 < float64_0_8" "float64_0_8 \<le> 7 / 8"
    by (simp_all add: float64_0_3333_def float64_0_6667_def float64_0_8_def)
  from NetworkHealthWarning_bands [OF n t, of "1 / 4"] c(1)
  have w1: "map_sum id NetworkHealthWarning (CalculateRewards ?s (1 / 4)) =
      Inr ''CRITICAL: Network participation below 33.33% - chain cannot finalize''" by auto
  from NetworkHealthWarning_bands [OF n t, of "1 / 3"] c(2,3)
  have w2: "map_sum id NetworkHealthWarning (CalculateRewards ?s (1 / 3)) =
      Inr ''WARNING: Network participation below 66.67% - inactivity leak active''" by auto
  from NetworkHealthWarning_bands [OF n t, of "2 / 3"] c(4,5)
  have w3: "map_sum id NetworkHealthWarning (CalculateRewards ?s (2 / 3)) =
      Inr ''WARNING: Network participation below 66.67% - inactivity leak active''" by auto
  from NetworkHealthWarning_bands [OF n t, of "3 / 4"] c(6,7)
  have w4: "map_sum id NetworkHealthWarning (CalculateRewards ?s (3 / 4)) =
      Inr ''CAUTION: Network participation below 80% - reduced security''" by auto
  from NetworkHealthWarning_bands [OF n t, of "7 / 8"] c(8)
  have w5: "map_sum id NetworkHealthWarning (CalculateRewards ?s (7 / 8)) = Inr []" by auto
  from n t w1 w2 w3 w4 w5 c show ?thesis by blast
qed

text \<open>
  The rate \<open>43691/65536\<close> lies between \<open>2/3\<close> and \<open>0.8\<close> and gets the leak warning, not
  the caution; the rate \<open>5461/16384\<close> lies below \<open>1/3\<close> and gets the leak warning, not
  the critical one; so does the \<open>float64\<close> nearest to \<open>2/3\<close>.
\<close>

theorem NetworkHealthWarning_bands_counterexample:
  "map_sum id NetworkHealthWarning
       (CalculateRewards (createNetworkState 4096 0) (43691 / 65536))
     = Inr ''WARNING: Network participation below 66.67% - inactivity leak active''
   \<and> (2 / 3 :: rat) \<le> 43691 / 65536 \<and> (43691 / 65536 :: rat) < 8 / 10
   \<and> map_sum id NetworkHealthWarning
       (CalculateRewards (createNetworkState 4096 0) (5461 / 16384))
     = Inr ''WARNING: Network participation below 66.67% - inactivity leak active''
   \<and> (5461 / 16384 :: rat) < 1 / 3
   \<and> map_sum id NetworkHealthWarning
       (CalculateRewards (createNetworkState 4096 0) (6004799503160661 / 9007199254740992))
     = Inr ''WARNING: Network participation below 66.67% - inactivity leak active''"
  by (simp add: CalculateRewards_4096 networkHealthWarning_def
      float64_0_3333_def float64_0_6667_def float64_0_8_def)

section \<open>Rounding to the nearest \<open>float64\<close>\<close>

subsection \<open>The exponent and the significand\<close>

lemma two_powi_add: "(2::rat) powi a * 2 powi b = 2 powi (a + b)"
  by (simp add: power_int_add)

lemma nat_ratio_bounds:
  fixes a b :: nat
  assumes a: "0 < a" and b: "0 < b"
  shows "(2::rat) powi (int (bit_length a) - int (bit_length b) - 1) < of_nat a / of_nat b"
    and "of_nat a / of_nat b < (2::rat) powi (int (bit_length a) - int (bit_length b) + 1)"
proof -
  from bit_length_bounds[OF a] have a1: "2 ^ (bit_length a - 1) \<le> a" and a2: "a < 2 ^ bit_length a"
    by simp_all
  from bit_length_bounds[OF b] have b1: "2 ^ (bit_length b - 1) \<le> b" and b2: "b < 2 ^ bit_length b"
    by simp_all
  have la: "0 < bit_length a" using a by (subst bit_length.simps) simp
  have lb: "0 < bit_length b" using b by (subst bit_length.simps) simp
  have ra1: "(2::rat) powi (int (bit_length a) - 1) \<le> of_nat a"
  proof -
    have "(2::rat) powi (int (bit_length a) - 1) = 2 ^ (bit_length a - 1)"
      using la by (simp add: power_int_def nat_diff_distrib')
    also have "\<dots> = of_nat (2 ^ (bit_length a - 1))" by simp
    also have "\<dots> \<le> of_nat a" using a1 by (simp only: of_nat_le_iff)
    finally show ?thesis .
  qed
  have ra2: "of_nat a < (2::rat) powi (int (bit_length a))"
  proof -
    have "(of_nat a :: rat) < of_nat (2 ^ bit_length a)" using a2 by (simp only: of_nat_less_iff)
    then show ?thesis by simp
  qed
  have rb1: "(2::rat) powi (int (bit_length b) - 1) \<le> of_nat b"
  proof -
    have "(2::rat) powi (int (bit_length b) - 1) = 2 ^ (bit_length b - 1)"
      using lb by (simp add: power_int_def nat_diff_distrib')
    also have "\<dots> = of_nat (2 ^ (bit_length b - 1))" by simp
    also have "\<dots> \<le> of_nat b" using b1 by (simp only: of_nat_le_iff)
    finally show ?thesis .
  qed
  have rb2: "of_nat b < (2::rat) powi (int (bit_length b))"
  proof -
    have "(of_nat b :: rat) < of_nat (2 ^ bit_length b)" using b2 by (simp only: of_nat_less_iff)
    then show ?thesis by simp
  qed
  have bpos: "(0::rat) < of_nat b" using b by simp
  have apos: "(0::rat) < of_nat a" using a by simp
  have "(2::rat) powi (int (bit_length a) - int (bit_length b) - 1) * of_nat b
        < 2 powi (int (bit_length a) - int (bit_length b) - 1) * 2 powi (int (bit_length b))"
    using rb2 by (simp add: mult_strict_left_mono)
  also have "\<dots> = 2 powi (int (bit_length a) - 1)"
    by (simp only: two_powi_add) simp
  also have "\<dots> \<le> of_nat a" by (rule ra1)
  finally show "(2::rat) powi (int (bit_length a) - int (bit_length b) - 1) < of_nat a / of_nat b"
    using bpos by (simp add: pos_less_divide_eq)
  have "(of_nat a :: rat) < 2 powi (int (bit_length a))" by (rule ra2)
  also have "\<dots> = 2 powi (int (bit_length a) - int (bit_length b) + 1) * 2 powi (int (bit_length b) - 1)"
    by (simp only: two_powi_add) simp
  also have "\<dots> \<le> 2 powi (int (bit_length a) - int (bit_length b) + 1) * of_nat b"
    using rb1 by (simp add: mult_left_mono)
  finally show "of_nat a / of_nat b < (2::rat) powi (int (bit_length a) - int (bit_length b) + 1)"
    using bpos by (simp add: pos_divide_less_eq)
qed

lemma f64_exponent_bounds:
  assumes "x \<noteq> 0"
  shows "2 powi (f64_exponent x) \<le> \<bar>x\<bar> \<and> \<bar>x\<bar> < 2 powi (f64_exponent x + 1)"
proof -
  obtain a b where ab: "quotient_of \<bar>x\<bar> = (a, b)" by (cases "quotient_of \<bar>x\<bar>")
  then have bpos: "0 < b" by (rule quotient_of_denom_pos)
  have xab: "\<bar>x\<bar> = of_int a / of_int b" using ab by (rule quotient_of_div)
  have xpos: "0 < \<bar>x\<bar>" using assms by simp
  have apos: "0 < a"
  proof (rule ccontr)
    assume "\<not> 0 < a"
    then have "of_int a / (of_int b :: rat) \<le> 0" using bpos by (simp add: divide_le_0_iff)
    with xab xpos show False by simp
  qed
  have na: "(of_int a :: rat) = of_nat (nat a)" using apos by simp
  have nb: "(of_int b :: rat) = of_nat (nat b)" using bpos by simp
  define k where "k = int (bit_length (nat a)) - int (bit_length (nat b))"
  have lo: "2 powi (k - 1) < \<bar>x\<bar>" and hi: "\<bar>x\<bar> < 2 powi (k + 1)"
    using nat_ratio_bounds[of "nat a" "nat b"] apos bpos
    unfolding xab na nb k_def by simp_all
  have e: "f64_exponent x = (if 2 powi k \<le> \<bar>x\<bar> then k else k - 1)"
    by (simp add: f64_exponent_def ab k_def Let_def)
  show ?thesis
  proof (cases "2 powi k \<le> \<bar>x\<bar>")
    case True
    with e hi show ?thesis by simp
  next
    case False
    with e lo show ?thesis by simp
  qed
qed

lemma two_powi_less_imp: "(2::rat) powi a < 2 powi b \<Longrightarrow> a < b"
  by (metis not_less one_le_numeral power_int_increasing leD)

lemma f64_exponent_unique:
  assumes "2 powi e \<le> \<bar>x\<bar>" and "\<bar>x\<bar> < 2 powi (e + 1)"
  shows "f64_exponent x = e"
proof -
  have "0 < (2::rat) powi e" by simp
  then have "0 < \<bar>x\<bar>" using assms(1) by (rule less_le_trans)
  then have x0: "x \<noteq> 0" by simp
  from f64_exponent_bounds[OF x0]
  have b1: "2 powi (f64_exponent x) \<le> \<bar>x\<bar>" and b2: "\<bar>x\<bar> < 2 powi (f64_exponent x + 1)"
    by simp_all
  have "(2::rat) powi e < 2 powi (f64_exponent x + 1)" using assms(1) b2 by (rule le_less_trans)
  then have 1: "e < f64_exponent x + 1" by (rule two_powi_less_imp)
  have "(2::rat) powi (f64_exponent x) < 2 powi (e + 1)" using b1 assms(2) by (rule le_less_trans)
  then have 2: "f64_exponent x < e + 1" by (rule two_powi_less_imp)
  from 1 2 show ?thesis by simp
qed

lemma round_half_even_error: "\<bar>of_int (round_half_even x) - x\<bar> \<le> 1 / 2"
proof -
  have "of_int \<lfloor>x\<rfloor> \<le> x" "x < of_int \<lfloor>x\<rfloor> + 1" by linarith+
  then show ?thesis by (simp add: round_half_even_def Let_def abs_if; linarith)
qed

lemma round_half_even_unique:
  assumes "\<bar>x - of_int r\<bar> < 1 / 2"
  shows "round_half_even x = r"
proof -
  have f: "of_int \<lfloor>x\<rfloor> \<le> x" "x < of_int \<lfloor>x\<rfloor> + 1" by linarith+
  from assms have r: "of_int r - 1 / 2 < x" "x < of_int r + 1 / 2" by (auto simp add: abs_if split: if_splits)
  have "\<lfloor>x\<rfloor> = r \<or> \<lfloor>x\<rfloor> = r - 1"
  proof -
    have "of_int \<lfloor>x\<rfloor> < (of_int r :: rat) + 1" using f r by linarith
    then have "\<lfloor>x\<rfloor> < r + 1" by (metis of_int_add of_int_1 of_int_less_iff)
    moreover have "(of_int r :: rat) - 2 < of_int \<lfloor>x\<rfloor>" using f r by linarith
    then have "r - 2 < \<lfloor>x\<rfloor>" by (metis of_int_diff of_int_numeral of_int_less_iff)
    ultimately show ?thesis by linarith
  qed
  then show ?thesis
  proof
    assume a: "\<lfloor>x\<rfloor> = r"
    then have "x - of_int \<lfloor>x\<rfloor> < 1 / 2" using r by simp
    then show ?thesis using a by (simp add: round_half_even_def Let_def)
  next
    assume a: "\<lfloor>x\<rfloor> = r - 1"
    then have "1 / 2 < x - of_int \<lfloor>x\<rfloor>" using r by simp
    then show ?thesis using a by (simp add: round_half_even_def Let_def)
  qed
qed

lemma round_half_even_ge: "of_int N \<le> x \<Longrightarrow> N \<le> round_half_even x"
proof -
  assume "of_int N \<le> x"
  then have "N \<le> \<lfloor>x\<rfloor>" by (simp add: le_floor_iff)
  then show ?thesis by (simp add: round_half_even_def Let_def)
qed

lemma round_half_even_le: "x \<le> of_int N \<Longrightarrow> round_half_even x \<le> N"
proof -
  assume a: "x \<le> of_int N"
  then have fl: "\<lfloor>x\<rfloor> \<le> N" by (metis floor_mono floor_of_int)
  show ?thesis
  proof (cases "\<lfloor>x\<rfloor> = N")
    case True
    then have "x - of_int \<lfloor>x\<rfloor> \<le> 0" using a by simp
    then show ?thesis using True by (simp add: round_half_even_def Let_def)
  next
    case False
    with fl have "\<lfloor>x\<rfloor> + 1 \<le> N" by simp
    then show ?thesis by (simp add: round_half_even_def Let_def)
  qed
qed

text \<open>The shape of a rounded positive number: significand between 2^52 and 2^53.\<close>

lemma f64_round_shape:
  assumes xpos: "0 < x"
  defines "e \<equiv> f64_exponent x"
  defines "q \<equiv> 2 powi (e - 52)"
  defines "r \<equiv> round_half_even (x / q)"
  shows "0 < q" and "2 ^ 52 \<le> r" and "r \<le> 2 ^ 53"
    and "\<bar>of_int r * q - x\<bar> \<le> q / 2" and "q / 2 \<le> x / 2 ^ 53"
    and "2 powi e \<le> of_int r * q" and "of_int r * q \<le> 2 powi (e + 1)"
    and "f64_round x =
           (if 2 powi (- 1022) \<le> of_int r * q \<and> of_int r * q < 2 powi 1024
            then Some (of_int r * q) else None)"
proof -
  have x0: "x \<noteq> 0" using xpos by simp
  from f64_exponent_bounds[OF x0] xpos
  have lo: "2 powi e \<le> x" and hi: "x < 2 powi (e + 1)" by (simp_all add: e_def)
  show qpos: "0 < q" by (simp add: q_def)
  have q52: "2 ^ 52 * q = 2 powi e"
  proof -
    have "(2::rat) ^ 52 * q = 2 powi 52 * 2 powi (e - 52)" by (simp add: q_def)
    also have "\<dots> = 2 powi e" by (simp only: two_powi_add) simp
    finally show ?thesis .
  qed
  have q53: "2 ^ 53 * q = 2 powi (e + 1)"
  proof -
    have "(2::rat) ^ 53 * q = 2 powi 53 * 2 powi (e - 52)" by (simp add: q_def)
    also have "\<dots> = 2 powi (e + 1)" by (simp only: two_powi_add) (simp add: add.commute)
    finally show ?thesis .
  qed
  have n1: "2 ^ 52 \<le> x / q" using lo qpos q52 by (simp add: pos_le_divide_eq)
  have n2: "x / q \<le> 2 ^ 53" using hi qpos q53 by (simp add: pos_divide_le_eq)
  have "of_int (2 ^ 52) \<le> x / q" using n1 by simp
  then show r1: "2 ^ 52 \<le> r" unfolding r_def by (rule round_half_even_ge)
  have "x / q \<le> of_int (2 ^ 53)" using n2 by simp
  then show r2: "r \<le> 2 ^ 53" unfolding r_def by (rule round_half_even_le)
  have "\<bar>of_int r - x / q\<bar> \<le> 1 / 2" unfolding r_def by (rule round_half_even_error)
  then have "\<bar>of_int r - x / q\<bar> * q \<le> 1 / 2 * q" using qpos by (simp add: mult_right_mono)
  moreover have "\<bar>of_int r - x / q\<bar> * q = \<bar>of_int r * q - x\<bar>"
  proof -
    have "\<bar>of_int r - x / q\<bar> * q = \<bar>of_int r - x / q\<bar> * \<bar>q\<bar>" using qpos by simp
    also have "\<dots> = \<bar>(of_int r - x / q) * q\<bar>" by (simp only: abs_mult)
    also have "(of_int r - x / q) * q = of_int r * q - x" using qpos by (simp add: field_simps)
    finally show ?thesis .
  qed
  ultimately show "\<bar>of_int r * q - x\<bar> \<le> q / 2" by simp
  have "q / 2 = 2 powi e / 2 ^ 53" using q53 q52 by (simp add: field_simps)
  also have "\<dots> \<le> x / 2 ^ 53" using lo by (simp add: divide_right_mono)
  finally show "q / 2 \<le> x / 2 ^ 53" .
  have "(2::rat) ^ 52 \<le> of_int r" using r1 by (metis of_int_le_iff of_int_numeral of_int_power)
  then have "2 ^ 52 * q \<le> of_int r * q" using qpos by (simp add: mult_right_mono)
  then show y1: "2 powi e \<le> of_int r * q" by (simp only: q52)
  have "of_int r \<le> (2::rat) ^ 53" using r2 by (metis of_int_le_iff of_int_numeral of_int_power)
  then have "of_int r * q \<le> 2 ^ 53 * q" using qpos by (simp add: mult_right_mono)
  then show y2: "of_int r * q \<le> 2 powi (e + 1)" by (simp only: q53)
  have "0 < (2::rat) powi e" by simp
  then have ypos: "0 < of_int r * q" using y1 by (rule less_le_trans)
  then have ab: "\<bar>of_int r * q\<bar> = of_int r * q" by simp
  show "f64_round x =
           (if 2 powi (- 1022) \<le> of_int r * q \<and> of_int r * q < 2 powi 1024
            then Some (of_int r * q) else None)"
    using x0 by (simp only: f64_round_def Let_def e_def[symmetric] q_def[symmetric]
                   r_def[symmetric] ab if_False)
qed


lemma two_powi_mono: "a \<le> b \<Longrightarrow> (2::rat) powi a \<le> 2 powi b"
  by (rule power_int_increasing) simp_all


text \<open>Certifying one rounding: the exponent, and an integer significand within less than
  half a unit.\<close>

lemma f64_round_near:
  assumes lo: "2 powi e \<le> x" and hi: "x < 2 powi (e + 1)"
      and q: "q = 2 powi (e - 52)"
      and near: "\<bar>x - of_int r * q\<bar> < q / 2"
  shows "f64_round x =
           (if 2 powi (- 1022) \<le> of_int r * q \<and> of_int r * q < 2 powi 1024
            then Some (of_int r * q) else None)"
    and "2 powi e \<le> of_int r * q" and "of_int r * q \<le> 2 powi (e + 1)"
proof -
  have "0 < (2::rat) powi e" by simp
  then have xpos: "0 < x" using lo by (rule less_le_trans)
  have ex: "f64_exponent x = e" using lo hi xpos by (intro f64_exponent_unique) simp_all
  have qpos: "0 < q" by (simp add: q)
  have "\<bar>x / q - of_int r\<bar> * q = \<bar>x - of_int r * q\<bar>"
  proof -
    have "\<bar>x / q - of_int r\<bar> * q = \<bar>x / q - of_int r\<bar> * \<bar>q\<bar>" using qpos by simp
    also have "\<dots> = \<bar>(x / q - of_int r) * q\<bar>" by (simp only: abs_mult)
    also have "(x / q - of_int r) * q = x - of_int r * q" using qpos by (simp add: field_simps)
    finally show ?thesis .
  qed
  with near have "\<bar>x / q - of_int r\<bar> * q < 1 / 2 * q" by simp
  then have "\<bar>x / q - of_int r\<bar> < 1 / 2" using qpos by (simp only: mult_less_cancel_right_pos)
  then have rr: "round_half_even (x / q) = r" by (rule round_half_even_unique)
  note sh = f64_round_shape[OF xpos, unfolded ex, folded q, unfolded rr]
  show "f64_round x =
           (if 2 powi (- 1022) \<le> of_int r * q \<and> of_int r * q < 2 powi 1024
            then Some (of_int r * q) else None)" by (rule sh(8))
  show "2 powi e \<le> of_int r * q" by (rule sh(6))
  show "of_int r * q \<le> 2 powi (e + 1)" by (rule sh(7))
qed

lemma f64_round_eqI:
  assumes lo: "2 powi e \<le> x" and hi: "x < 2 powi (e + 1)"
      and q: "q = 2 powi (e - 52)"
      and near: "\<bar>x - of_int r * q\<bar> < q / 2"
      and y1: "2 powi (- 1022) \<le> of_int r * q" and y2: "of_int r * q < 2 powi 1024"
  shows "f64_round x = Some (of_int r * q)"
  using f64_round_near(1)[OF lo hi q near] y1 y2 by (simp only: if_True simp_thms)

lemma f64_round_cert:
  assumes lo: "2 powi e \<le> x" and hi: "x < 2 powi (e + 1)"
      and q: "q = 2 powi (e - 52)"
      and near: "\<bar>x - of_int r * q\<bar> < q / 2"
      and e1: "- 1022 \<le> e" and e2: "e \<le> 1022"
  shows "f64_round x = Some (of_int r * q)"
proof -
  note n = f64_round_near[OF lo hi q near]
  have y1: "2 powi (- 1022) \<le> of_int r * q"
    using two_powi_mono[OF e1] n(2) by (rule order_trans)
  have e3: "e + 1 \<le> 1023" using e2 by simp
  have "of_int r * q \<le> 2 powi 1023" using n(3) two_powi_mono[OF e3] by (rule order_trans)
  also have "\<dots> < 2 powi 1024" by (rule power_int_strict_increasing) simp_all
  finally have y2: "of_int r * q < 2 powi 1024" .
  show ?thesis using lo hi q near y1 y2 by (rule f64_round_eqI)
qed



subsection \<open>Results within the normal range\<close>





lemma zr_refl: "(c::rat) = 0 \<or> (c \<le> c \<and> c \<le> c)"
  by simp



subsection \<open>Accumulated rounding errors\<close>








section \<open>The participation multiplier\<close>

text \<open>The three literals are the nearest \<open>float64\<close> of the decimals they are written as.\<close>

lemma float64_literals:
  "f64_round (6 / 10) = Some float64_0_6"
  "f64_round (9 / 10) = Some float64_0_9"
  "f64_round (28 / 10) = Some float64_2_8"
  using f64_round_cert [where x = "6 / 10" and e = "-1" and r = 5404319552844595 and q = "1 / 2 ^ 53"]
        f64_round_cert [where x = "9 / 10" and e = "-1" and r = 8106479329266893 and q = "1 / 2 ^ 53"]
        f64_round_cert [where x = "28 / 10" and e = "1" and r = 6305039478318694 and q = "1 / 2 ^ 51"]
  by (simp_all add: float64_0_6_def float64_0_9_def float64_2_8_def)

subsection \<open>The projections for 10000 validators at the rate 0.9\<close>






























subsection \<open>Every state and rate\<close>





end
